theory Spec2Isabelle
  imports Main "HOL-Library.Log_Nat"
begin

section \<open>Python values\<close>

text \<open>
  Exceptions are values.  Every handler of the program is \<^verbatim>\<open>except:\<close> or
  \<^verbatim>\<open>except Exception\<close>, so the kind of an exception never decides a branch; it
  is kept to name the raise.  A computation that may raise has type
  \<open>py_error + 'a\<close>, with \<open>Inl\<close> the exception.
\<close>

datatype py_error =
  WebDriverException | ValueError | OverflowError | TypeError | AttributeError
  | IndexError | UnboundLocalError | LangDetectException

subsection \<open>Strings\<close>

text \<open>
  Strings are lists of characters of the ASCII range; digits and white space are the
  ASCII ones (the characters \<^verbatim>\<open>str.strip\<close> removes below code point 128).
\<close>

definition is_digit :: "char \<Rightarrow> bool" where
  "is_digit c = (c \<in> set ''0123456789'')"

definition is_space :: "char \<Rightarrow> bool" where
  "is_space c = (let n = (of_char c :: nat) in (9 \<le> n \<and> n \<le> 13) \<or> (28 \<le> n \<and> n \<le> 32))"

definition strip :: "string \<Rightarrow> string" where
  "strip s = rev (dropWhile is_space (rev (dropWhile is_space s)))"

definition isdigit :: "string \<Rightarrow> bool" where
  "isdigit s = (s \<noteq> [] \<and> list_all is_digit s)"

definition to_lower :: "char \<Rightarrow> char" where
  "to_lower c = (let n = (of_char c :: nat) in if 65 \<le> n \<and> n \<le> 90 then char_of (n + 32) else c)"

definition lower :: "string \<Rightarrow> string" where
  "lower s = map to_lower s"

definition remove_char :: "char \<Rightarrow> string \<Rightarrow> string" where
  "remove_char c s = filter (\<lambda>x. x \<noteq> c) s"

text \<open>\<^verbatim>\<open>sub in s\<close> for strings.\<close>

fun contains :: "string \<Rightarrow> string \<Rightarrow> bool" where
  "contains sub [] = (sub = [])"
| "contains sub (c # cs) = (take (length sub) (c # cs) = sub \<or> contains sub cs)"

text \<open>\<^verbatim>\<open>s.split('/')[-1]\<close>: what follows the last slash.\<close>

definition last_segment :: "string \<Rightarrow> string" where
  "last_segment s = rev (takeWhile (\<lambda>c. c \<noteq> CHR ''/'') (rev s))"

definition digit_value :: "char \<Rightarrow> int" where
  "digit_value c = int (of_char c) - 48"

text \<open>\<^verbatim>\<open>int(s)\<close> on a string of digits.\<close>

definition digits_value :: "string \<Rightarrow> int" where
  "digits_value s = foldl (\<lambda>acc c. 10 * acc + digit_value c) 0 s"

subsection \<open>Regular expressions of the program\<close>

text \<open>
  \<^verbatim>\<open>re.search(r'/status/(\d+)', url)\<close>: group 1 of the leftmost match, \<open>None\<close>
  when nothing matches.
\<close>

fun status_id :: "string \<Rightarrow> string option" where
  "status_id [] = None"
| "status_id (c # cs) =
     (if take 8 (c # cs) = ''/status/'' \<and> takeWhile is_digit (drop 8 (c # cs)) \<noteq> []
      then Some (takeWhile is_digit (drop 8 (c # cs)))
      else status_id cs)"

text \<open>
  \<^verbatim>\<open>re.search(r'(\d+(?:\.\d+)?[KkMm]?)', count_text)\<close>: the match starts at the first
  digit; each part is greedy and every later part is optional, so no backtracking
  changes the match.
\<close>

definition count_match :: "string \<Rightarrow> string option" where
  "count_match s =
     (case dropWhile (\<lambda>c. \<not> is_digit c) s of
        [] \<Rightarrow> None
      | r \<Rightarrow>
          let ip = takeWhile is_digit r;
              r1 = dropWhile is_digit r;
              fp = (case r1 of
                      [] \<Rightarrow> []
                    | c # t \<Rightarrow>
                        if c = CHR ''.'' \<and> takeWhile is_digit t \<noteq> []
                        then c # takeWhile is_digit t else []);
              r2 = drop (length fp) r1;
              suffix = (case r2 of
                          [] \<Rightarrow> []
                        | c # t \<Rightarrow> if c \<in> set ''KkMm'' then [c] else [])
          in Some (ip @ fp @ suffix))"

subsection \<open>Floating point\<close>

text \<open>
  A Python float is an IEEE 754 binary64 value.  The finite ones are rationals; the
  model rounds exactly as the hardware does (to nearest, ties to even, 53 significant
  bits, least exponent -1074, infinity when the rounded value needs a binary exponent
  above 1023).  The sign of zero
  is dropped: \<^verbatim>\<open>int\<close> maps both zeros to 0.
\<close>

datatype py_float = Finite rat | PosInf | NegInf | NaN

definition pow2 :: "int \<Rightarrow> rat" where
  "pow2 p = (if 0 \<le> p then 2 ^ nat p else 1 / 2 ^ nat (- p))"

definition pow10 :: "int \<Rightarrow> rat" where
  "pow10 p = (if 0 \<le> p then 10 ^ nat p else 1 / 10 ^ nat (- p))"

definition round_half_even :: "rat \<Rightarrow> int" where
  "round_half_even r =
     (let f = \<lfloor>r\<rfloor>; frac = r - of_int f
      in if frac < 1 / 2 then f
         else if 1 / 2 < frac then f + 1
         else if even f then f else f + 1)"

text \<open>The binary exponent of a positive rational: \<open>pow2 e \<le> a < pow2 (e + 1)\<close>.\<close>

definition ilog2 :: "rat \<Rightarrow> int" where
  "ilog2 a =
     (let (n, d) = quotient_of a; e0 = bitlen n - bitlen d
      in if pow2 e0 \<le> a then e0 else e0 - 1)"

definition float_round :: "rat \<Rightarrow> py_float" where
  "float_round q =
     (if q = 0 then Finite 0
      else
        let a = \<bar>q\<bar>;
            p = max (ilog2 a - 52) (- 1074);
            m = round_half_even (a / pow2 p);
            e = (if m = 2 ^ 53 then p + 53 else p + 52)
        in if 1023 < e then (if 0 < q then PosInf else NegInf)
           else Finite (if 0 < q then of_int m * pow2 p else - (of_int m * pow2 p)))"

text \<open>\<^verbatim>\<open>x * k\<close> for a float \<open>x\<close> and a positive finite constant \<open>k\<close>.\<close>

definition float_times :: "py_float \<Rightarrow> rat \<Rightarrow> py_float" where
  "float_times x k = (case x of Finite q \<Rightarrow> float_round (q * k) | other \<Rightarrow> other)"

text \<open>\<^verbatim>\<open>int(x)\<close> for a float: truncation towards zero; infinities and NaN raise.\<close>

definition int_of_float :: "py_float \<Rightarrow> py_error + int" where
  "int_of_float x =
     (case x of
        Finite q \<Rightarrow> Inr (if 0 \<le> q then \<lfloor>q\<rfloor> else \<lceil>q\<rceil>)
      | PosInf \<Rightarrow> Inl OverflowError
      | NegInf \<Rightarrow> Inl OverflowError
      | NaN \<Rightarrow> Inl ValueError)"

text \<open>
  \<^verbatim>\<open>float(s)\<close> for a string: surrounding white space is dropped; an underscore may
  stand between two digits; then an optional sign and either \<^verbatim>\<open>inf\<close>,
  \<^verbatim>\<open>infinity\<close>, \<^verbatim>\<open>nan\<close> (any case) or a decimal numeral with an optional
  fraction and exponent.  Anything else raises \<^verbatim>\<open>ValueError\<close>.  The result is the
  double nearest to the decimal value.
\<close>

fun underscores_ok :: "char option \<Rightarrow> string \<Rightarrow> bool" where
  "underscores_ok prev [] = True"
| "underscores_ok prev (c # cs) =
     (if c = CHR ''_''
      then (case prev of None \<Rightarrow> False | Some b \<Rightarrow> is_digit b)
           \<and> (case cs of [] \<Rightarrow> False | n # _ \<Rightarrow> is_digit n)
           \<and> underscores_ok (Some c) cs
      else underscores_ok (Some c) cs)"

definition parse_exponent :: "string \<Rightarrow> int option" where
  "parse_exponent r =
     (case r of
        [] \<Rightarrow> Some 0
      | c # t \<Rightarrow>
          if c = CHR ''e'' \<or> c = CHR ''E'' then
            (let (neg, ds) = (case t of
                                [] \<Rightarrow> (False, [])
                              | s # u \<Rightarrow>
                                  if s = CHR ''-'' then (True, u)
                                  else if s = CHR ''+'' then (False, u)
                                  else (False, t))
             in if isdigit ds then Some (if neg then - digits_value ds else digits_value ds)
                else None)
          else None)"

definition float_of_string :: "string \<Rightarrow> py_error + py_float" where
  "float_of_string s =
     (let t = strip s in
      if \<not> underscores_ok None t then Inl ValueError
      else
        let u = remove_char (CHR ''_'') t;
            (neg, body) = (case u of
                             [] \<Rightarrow> (False, [])
                           | c # r \<Rightarrow>
                               if c = CHR ''-'' then (True, r)
                               else if c = CHR ''+'' then (False, r)
                               else (False, u))
        in if lower body = ''inf'' \<or> lower body = ''infinity''
           then Inr (if neg then NegInf else PosInf)
           else if lower body = ''nan'' then Inr NaN
           else
             let ip = takeWhile is_digit body;
                 r1 = dropWhile is_digit body;
                 fp = (case r1 of
                         [] \<Rightarrow> []
                       | c # r \<Rightarrow> if c = CHR ''.'' then takeWhile is_digit r else []);
                 r2 = (case r1 of
                         [] \<Rightarrow> []
                       | c # r \<Rightarrow> if c = CHR ''.'' then dropWhile is_digit r else r1)
             in if ip @ fp = [] then Inl ValueError
                else
                  (case parse_exponent r2 of
                     None \<Rightarrow> Inl ValueError
                   | Some ex \<Rightarrow>
                       Inr (float_round
                              ((if neg then - 1 else 1) * of_int (digits_value (ip @ fp))
                               * pow10 (ex - int (length fp))))))"

section \<open>Engagement counts (get_metrics)\<close>

text \<open>
  Lines 85-90 and, word for word, lines 102-107: the conversion of a count text with a
  K or M in it, or of a plain number.  \<open>Inl\<close> is the exception raised by \<^verbatim>\<open>float\<close>
  or \<^verbatim>\<open>int\<close>.
\<close>

definition convert_count :: "string \<Rightarrow> py_error + int" where
  "convert_count count_text =
     (if CHR ''K'' \<in> set count_text \<or> CHR ''k'' \<in> set count_text then
        (case float_of_string (remove_char (CHR ''k'') (lower count_text)) of
           Inl e \<Rightarrow> Inl e
         | Inr x \<Rightarrow> int_of_float (float_times x 1000))
      else if CHR ''M'' \<in> set count_text \<or> CHR ''m'' \<in> set count_text then
        (case float_of_string (remove_char (CHR ''m'') (lower count_text)) of
           Inl e \<Rightarrow> Inl e
         | Inr x \<Rightarrow> int_of_float (float_times x 1000000))
      else Inr (if isdigit count_text then digits_value count_text else 0))"

subsection \<open>Page elements\<close>

text \<open>
  An element of the page is the outcome of each query the program makes on it:
  \<open>Inl\<close> when the query raises (no such element, stale element), \<open>Inr\<close> its value.
  \<^verbatim>\<open>get_attribute\<close> returns \<open>None\<close> for an absent attribute.
\<close>

record group_element =
  ge_testid :: "py_error + string option"
  ge_text :: "py_error + string"

record tweet_element =
  status_links :: "py_error + (py_error + string option) list"
  social_context :: "py_error + string"
  user_name_div_link :: "py_error + string option"
  user_name_link :: "py_error + string option"
  tweet_text :: "py_error + string"
  time_datetime :: "py_error + string option"
  metric_groups :: "py_error + group_element list"
  metric_spans :: "string \<Rightarrow> py_error + (py_error + string) list"

text \<open>
  The dictionary \<^verbatim>\<open>metrics\<close>, in the order of its keys.  The program only ever
  assigns to the three keys it starts with.
\<close>

type_synonym metrics = "(string \<times> int) list"

definition metrics_init :: metrics where
  "metrics_init = [(''reply'', 0), (''retweet'', 0), (''like'', 0)]"

text \<open>\<^verbatim>\<open>metrics[k] = v\<close> for a key of the dictionary.\<close>

definition metrics_set :: "string \<Rightarrow> int \<Rightarrow> metrics \<Rightarrow> metrics" where
  "metrics_set k v m = map (\<lambda>(k', v'). if k' = k then (k', v) else (k', v')) m"

text \<open>\<^verbatim>\<open>metrics.get(k, 0)\<close>.\<close>

definition metrics_get :: "metrics \<Rightarrow> string \<Rightarrow> int" where
  "metrics_get m k = (case map_of m k of None \<Rightarrow> 0 | Some v \<Rightarrow> v)"

text \<open>\<^verbatim>\<open>all(v == 0 for v in metrics.values())\<close>.\<close>

definition all_zero :: "metrics \<Rightarrow> bool" where
  "all_zero m = list_all (\<lambda>kv. snd kv = 0) m"

text \<open>
  Lines 75-90, after \<^verbatim>\<open>test_id\<close> has been read: the rest of the body of the inner
  \<^verbatim>\<open>try\<close>.  \<open>Inl\<close> is an exception raised in it; the dictionary is then as it was,
  the assignment being the last statement.
\<close>

definition primary_body :: "string option \<Rightarrow> group_element \<Rightarrow> metrics \<Rightarrow> py_error + metrics" where
  "primary_body test_id element m =
     (case test_id of
        None \<Rightarrow> Inr m
      | Some k \<Rightarrow>
          if k \<in> set (map fst m) then
            (case ge_text element of
               Inl e \<Rightarrow> Inl e
             | Inr t \<Rightarrow>
                 let count_text = strip t in
                 if count_text \<noteq> [] then
                   (case count_match count_text of
                      None \<Rightarrow> Inr m
                    | Some token \<Rightarrow>
                        (case convert_count token of
                           Inl e \<Rightarrow> Inl e
                         | Inr v \<Rightarrow> Inr (metrics_set k v m)))
                 else Inr m)
          else Inr m)"

text \<open>
  Lines 72-92, the loop over \<^verbatim>\<open>group_elements\<close>.  The handler of line 91 formats
  \<^verbatim>\<open>test_id\<close>: when \<^verbatim>\<open>get_attribute\<close> raises for the first element the name is
  not bound yet, the handler itself raises and the loop is left (\<open>bound\<close> tells
  whether an earlier element has bound it).  The result is the dictionary and the
  exception that left the loop, if one did.
\<close>

fun primary_loop :: "group_element list \<Rightarrow> bool \<Rightarrow> metrics \<Rightarrow> py_error option \<times> metrics" where
  "primary_loop [] bound m = (None, m)"
| "primary_loop (element # rest) bound m =
     (case ge_testid element of
        Inl e \<Rightarrow> if bound then primary_loop rest bound m else (Some UnboundLocalError, m)
      | Inr test_id \<Rightarrow>
          (case primary_body test_id element m of
             Inl e \<Rightarrow> primary_loop rest True m
           | Inr m' \<Rightarrow> primary_loop rest True m'))"

text \<open>
  Lines 99-108, the loop over the spans of one metric: the value assigned before the
  \<^verbatim>\<open>break\<close>, \<open>None\<close> when the loop ends without one, \<open>Inl\<close> when it raises.
\<close>

fun span_loop :: "(py_error + string) list \<Rightarrow> py_error + int option" where
  "span_loop [] = Inr None"
| "span_loop (el # rest) =
     (case el of
        Inl e \<Rightarrow> Inl e
      | Inr t \<Rightarrow>
          let count_text = strip t in
          if count_text \<noteq> []
             \<and> (isdigit count_text \<or> CHR ''K'' \<in> set count_text \<or> CHR ''M'' \<in> set count_text)
          then (case convert_count count_text of
                  Inl e \<Rightarrow> Inl e
                | Inr v \<Rightarrow> Inr (Some v))
          else span_loop rest)"

text \<open>
  Lines 97-110, one metric of the second approach: the value it assigns, \<open>None\<close>
  when it assigns none (no span qualifies, or an exception reaches
  \<^verbatim>\<open>except: pass\<close>).
\<close>

definition span_value :: "tweet_element \<Rightarrow> string \<Rightarrow> int option" where
  "span_value tweet_element metric =
     (case metric_spans tweet_element metric of
        Inl e \<Rightarrow> None
      | Inr elements \<Rightarrow>
          (case span_loop elements of
             Inl e \<Rightarrow> None
           | Inr v \<Rightarrow> v))"

definition secondary_metric :: "tweet_element \<Rightarrow> metrics \<Rightarrow> string \<Rightarrow> metrics" where
  "secondary_metric tweet_element m metric =
     (case span_value tweet_element metric of
        None \<Rightarrow> m
      | Some v \<Rightarrow> metrics_set metric v m)"

text \<open>
  The element queries \<^verbatim>\<open>get_metrics\<close> issues, in order: the grouped CSS query of
  line 70 and the XPath query of line 98 for a metric.
\<close>

datatype metric_query = GroupQuery | SpanQuery string

text \<open>
  Lines 70-92, the first approach: the exception that ended it, if any (the query of
  line 70 raising, or the handler of line 91), and the dictionary at that point.
\<close>

definition primary_approach :: "tweet_element \<Rightarrow> py_error option \<times> metrics" where
  "primary_approach tweet_element =
     (case metric_groups tweet_element of
        Inl e \<Rightarrow> (Some e, metrics_init)
      | Inr group_elements \<Rightarrow> primary_loop group_elements False metrics_init)"

text \<open>
  \<^verbatim>\<open>get_metrics\<close>, lines 63-114, with the queries it issued.  An exception that
  ends the first approach reaches the handler of line 111, and the second approach
  is not run.
\<close>

definition get_metrics_queries :: "tweet_element \<Rightarrow> metrics \<times> metric_query list" where
  "get_metrics_queries tweet_element =
     (case primary_approach tweet_element of
        (Some e, m) \<Rightarrow> (m, [GroupQuery])
      | (None, m) \<Rightarrow>
          if all_zero m
          then (foldl (secondary_metric tweet_element) m (map fst m),
                GroupQuery # map SpanQuery (map fst m))
          else (m, [GroupQuery]))"

definition get_metrics :: "tweet_element \<Rightarrow> metrics" where
  "get_metrics tweet_element = fst (get_metrics_queries tweet_element)"

section \<open>The browser and the other collaborators\<close>

text \<open>
  The program is sequential and deterministic, so what the outside world does is the
  answer it gives to the first call, to the second, and so on.  A \<open>world\<close> fixes these
  answers by the number of calls made before: whether the call raises, which
  articles the page shows, how high the document is, which language the detector
  names, what the clock reads.  \<open>formatted_date\<close> is \<^verbatim>\<open>strptime\<close> followed by
  \<^verbatim>\<open>strftime\<close> with the format of lines 121-124.
\<close>

datatype call =
  Get string | FindButtons string | Click | FindArticles | ScrollToBottom | ReadHeight
  | WindowOpen string | WindowHandles | SwitchTo nat | CloseWindow | Quit | Detect string

record world =
  driver_starts :: bool
  formatted_date :: "string \<Rightarrow> py_error + string"
  raises :: "nat \<Rightarrow> bool"
  articles :: "nat \<Rightarrow> tweet_element list"
  buttons :: "nat \<Rightarrow> nat"
  scroll_height :: "nat \<Rightarrow> int"
  detected :: "nat \<Rightarrow> string"
  clock :: "nat \<Rightarrow> string"

text \<open>
  The driver: the calls made so far (to the browser and, recorded with them, to the
  language detector), the handles of the open windows in the order they were
  opened, the window that has the focus, and the handle the next window will get.
\<close>

record driver =
  calls :: "call list"
  window_handles :: "nat list"
  current_window :: nat
  next_handle :: nat

definition new_driver :: driver where
  "new_driver = \<lparr>calls = [], window_handles = [0], current_window = 0, next_handle = 1\<rparr>"

text \<open>\<^verbatim>\<open>setup_driver\<close>, lines 36-53; the options do not reach the model.\<close>

definition setup_driver :: "world \<Rightarrow> bool \<Rightarrow> py_error + driver" where
  "setup_driver w headless = (if driver_starts w then Inr new_driver else Inl WebDriverException)"

text \<open>Every call is recorded; the world says whether it raises.\<close>

definition command :: "world \<Rightarrow> call \<Rightarrow> driver \<Rightarrow> bool \<times> driver" where
  "command w c d = (raises w (length (calls d)), d\<lparr>calls := calls d @ [c]\<rparr>)"

definition driver_get :: "world \<Rightarrow> string \<Rightarrow> driver \<Rightarrow> (py_error + unit) \<times> driver" where
  "driver_get w url d =
     (case command w (Get url) d of
        (True, d') \<Rightarrow> (Inl WebDriverException, d')
      | (False, d') \<Rightarrow> (Inr (), d'))"

definition find_articles :: "world \<Rightarrow> driver \<Rightarrow> (py_error + tweet_element list) \<times> driver" where
  "find_articles w d =
     (case command w FindArticles d of
        (True, d') \<Rightarrow> (Inl WebDriverException, d')
      | (False, d') \<Rightarrow> (Inr (articles w (length (calls d))), d'))"

definition scroll_to_bottom :: "world \<Rightarrow> driver \<Rightarrow> (py_error + unit) \<times> driver" where
  "scroll_to_bottom w d =
     (case command w ScrollToBottom d of
        (True, d') \<Rightarrow> (Inl WebDriverException, d')
      | (False, d') \<Rightarrow> (Inr (), d'))"

definition read_height :: "world \<Rightarrow> driver \<Rightarrow> (py_error + int) \<times> driver" where
  "read_height w d =
     (case command w ReadHeight d of
        (True, d') \<Rightarrow> (Inl WebDriverException, d')
      | (False, d') \<Rightarrow> (Inr (scroll_height w (length (calls d))), d'))"

text \<open>\<^verbatim>\<open>window.open(url, '_blank')\<close>: a new window, last in the list of handles.\<close>

definition window_open :: "world \<Rightarrow> string \<Rightarrow> driver \<Rightarrow> (py_error + unit) \<times> driver" where
  "window_open w url d =
     (case command w (WindowOpen url) d of
        (True, d') \<Rightarrow> (Inl WebDriverException, d')
      | (False, d') \<Rightarrow>
          (Inr (), d'\<lparr>window_handles := window_handles d' @ [next_handle d'],
                      next_handle := next_handle d' + 1\<rparr>))"

definition get_window_handles :: "world \<Rightarrow> driver \<Rightarrow> (py_error + nat list) \<times> driver" where
  "get_window_handles w d =
     (case command w WindowHandles d of
        (True, d') \<Rightarrow> (Inl WebDriverException, d')
      | (False, d') \<Rightarrow> (Inr (window_handles d'), d'))"

text \<open>\<^verbatim>\<open>switch_to.window\<close>: the focus moves only when the call succeeds.\<close>

definition switch_to_window :: "world \<Rightarrow> nat \<Rightarrow> driver \<Rightarrow> (py_error + unit) \<times> driver" where
  "switch_to_window w h d =
     (case command w (SwitchTo h) d of
        (True, d') \<Rightarrow> (Inl WebDriverException, d')
      | (False, d') \<Rightarrow>
          if h \<in> set (window_handles d') then (Inr (), d'\<lparr>current_window := h\<rparr>)
          else (Inl WebDriverException, d'))"

text \<open>\<^verbatim>\<open>driver.close()\<close> closes the window that has the focus.\<close>

definition close_window :: "world \<Rightarrow> driver \<Rightarrow> (py_error + unit) \<times> driver" where
  "close_window w d =
     (case command w CloseWindow d of
        (True, d') \<Rightarrow> (Inl WebDriverException, d')
      | (False, d') \<Rightarrow>
          if current_window d' \<in> set (window_handles d')
          then (Inr (), d'\<lparr>window_handles := removeAll (current_window d') (window_handles d')\<rparr>)
          else (Inl WebDriverException, d'))"

definition driver_quit :: "world \<Rightarrow> driver \<Rightarrow> (py_error + unit) \<times> driver" where
  "driver_quit w d =
     (case command w Quit d of
        (True, d') \<Rightarrow> (Inl WebDriverException, d')
      | (False, d') \<Rightarrow> (Inr (), d'\<lparr>window_handles := []\<rparr>))"

text \<open>
  \<^verbatim>\<open>langdetect.detect\<close>: it raises on a text with no features, the empty text among
  them, and whenever the world says so.
\<close>

definition langdetect_detect :: "world \<Rightarrow> string \<Rightarrow> driver \<Rightarrow> (py_error + string) \<times> driver" where
  "langdetect_detect w t d =
     (case command w (Detect t) d of
        (True, d') \<Rightarrow> (Inl LangDetectException, d')
      | (False, d') \<Rightarrow>
          if t = [] then (Inl LangDetectException, d')
          else (Inr (detected w (length (calls d))), d'))"

text \<open>Sequencing of calls that may raise: the first exception ends the sequence.\<close>

definition then_do ::
  "(py_error + 'a) \<times> driver \<Rightarrow> ('a \<Rightarrow> driver \<Rightarrow> (py_error + 'b) \<times> driver)
   \<Rightarrow> (py_error + 'b) \<times> driver" where
  "then_do r f = (case r of (Inl e, d) \<Rightarrow> (Inl e, d) | (Inr v, d) \<Rightarrow> f v d)"

section \<open>Language filter (is_english_text)\<close>

text \<open>Lines 55-61.\<close>

definition is_english_text :: "world \<Rightarrow> string \<Rightarrow> driver \<Rightarrow> bool \<times> driver" where
  "is_english_text w t d =
     (case langdetect_detect w t d of
        (Inl e, d') \<Rightarrow> (True, d')
      | (Inr lang, d') \<Rightarrow> (lang = ''en'', d'))"

text \<open>
  The condition of lines 226 and 355,
  \<^verbatim>\<open>english_only and text and not is_english_text(text)\<close>, evaluated left to right.
\<close>

definition language_skip :: "world \<Rightarrow> bool \<Rightarrow> string \<Rightarrow> driver \<Rightarrow> bool \<times> driver" where
  "language_skip w english_only t d =
     (if english_only \<and> t \<noteq> []
      then (case is_english_text w t d of (b, d') \<Rightarrow> (\<not> b, d'))
      else (False, d))"

section \<open>Records and field extraction\<close>

text \<open>
  The dictionaries \<^verbatim>\<open>tweet_data\<close> and \<^verbatim>\<open>reply_data\<close>; \<open>post_id\<close> is the key
  \<^verbatim>\<open>id\<close> and \<open>post_text\<close> the key \<^verbatim>\<open>text\<close>.
\<close>

record post_record =
  post_id :: string
  speaker_nm :: string
  conversation_id :: string
  reply_to_id :: "string option"
  reply_to_nm :: "string option"
  timestamp :: "string option"
  post_text :: string
  likes :: int
  shares :: int
  num_comments :: int

text \<open>Lines 208-216 and 337-345.\<close>

definition get_username :: "tweet_element \<Rightarrow> string" where
  "get_username tweet =
     (case user_name_div_link tweet of
        Inr (Some href) \<Rightarrow> last_segment href
      | _ \<Rightarrow>
          (case user_name_link tweet of
             Inr (Some href) \<Rightarrow> last_segment href
           | _ \<Rightarrow> ''unknown''))"

text \<open>Lines 219-223 and 348-352.\<close>

definition get_text :: "tweet_element \<Rightarrow> string" where
  "get_text tweet = (case tweet_text tweet of Inl e \<Rightarrow> [] | Inr t \<Rightarrow> t)"

text \<open>Lines 231-235 and 360-364.\<close>

definition get_timestamp :: "world \<Rightarrow> driver \<Rightarrow> tweet_element \<Rightarrow> string option" where
  "get_timestamp w d tweet =
     (case time_datetime tweet of
        Inl e \<Rightarrow> Some (clock w (length (calls d)))
      | Inr a \<Rightarrow> a)"

text \<open>Lines 198-205: the marker that makes the search loop skip an article.\<close>

definition is_reply :: "tweet_element \<Rightarrow> bool" where
  "is_reply tweet =
     (case social_context tweet of
        Inl e \<Rightarrow> False
      | Inr t \<Rightarrow> contains ''Replying to'' t)"

text \<open>
  Lines 183-191 and 329-334: the link and the id of an article, \<open>None\<close> when the
  article is passed over (no link, or an exception that the handler of the loop body
  catches: the link query or the attribute raising, \<^verbatim>\<open>re.search\<close> on \<open>None\<close>, or no
  match).
\<close>

definition article_identity :: "tweet_element \<Rightarrow> (string \<times> string) option" where
  "article_identity tweet =
     (case status_links tweet of
        Inl e \<Rightarrow> None
      | Inr [] \<Rightarrow> None
      | Inr (link # _) \<Rightarrow>
          (case link of
             Inl e \<Rightarrow> None
           | Inr None \<Rightarrow> None
           | Inr (Some url) \<Rightarrow>
               (case status_id url of
                  None \<Rightarrow> None
                | Some i \<Rightarrow> Some (url, i))))"

section \<open>Thread crawler (get_twitter_replies)\<close>

text \<open>Lines 370-381.\<close>

definition reply_data ::
  "string \<Rightarrow> string \<Rightarrow> string \<Rightarrow> string \<Rightarrow> string option \<Rightarrow> string \<Rightarrow> metrics \<Rightarrow> post_record" where
  "reply_data reply_id username parent_id parent_username ts t m =
     \<lparr>post_id = reply_id, speaker_nm = username, conversation_id = parent_id,
      reply_to_id = Some parent_id, reply_to_nm = Some parent_username,
      timestamp = ts, post_text = t,
      likes = metrics_get m ''like'', shares = metrics_get m ''retweet'',
      num_comments = metrics_get m ''reply''\<rparr>"

text \<open>Lines 327-391: the body of the inner loop for one article after the first.\<close>

definition process_reply ::
  "world \<Rightarrow> string \<Rightarrow> string \<Rightarrow> bool \<Rightarrow> tweet_element \<Rightarrow> post_record list \<Rightarrow> driver
   \<Rightarrow> post_record list \<times> driver" where
  "process_reply w parent_id parent_username english_only reply replies d =
     (case article_identity reply of
        None \<Rightarrow> (replies, d)
      | Some (reply_url, reply_id) \<Rightarrow>
          let username = get_username reply;
              t = get_text reply
          in (case language_skip w english_only t d of
                (True, d1) \<Rightarrow> (replies, d1)
              | (False, d1) \<Rightarrow>
                  (replies @ [reply_data reply_id username parent_id parent_username
                                (get_timestamp w d1 reply) t (get_metrics reply)], d1)))"

text \<open>Lines 319-391 for the articles after the first (index 0 is passed over).\<close>

fun reply_for ::
  "world \<Rightarrow> string \<Rightarrow> string \<Rightarrow> int \<Rightarrow> bool \<Rightarrow> tweet_element list \<Rightarrow> post_record list
   \<Rightarrow> driver \<Rightarrow> post_record list \<times> driver" where
  "reply_for w parent_id parent_username replies_limit english_only [] replies d = (replies, d)"
| "reply_for w parent_id parent_username replies_limit english_only (reply # rest) replies d =
     (if replies_limit \<le> int (length replies) then (replies, d)
      else
        (case process_reply w parent_id parent_username english_only reply replies d of
           (replies', d') \<Rightarrow>
             reply_for w parent_id parent_username replies_limit english_only rest replies' d'))"

text \<open>
  Lines 313-404: one pass of the scroll loop.  The result is the exception that left
  the pass, if any, the stall counter, the replies and the driver.
\<close>

definition replies_pass ::
  "world \<Rightarrow> string \<Rightarrow> string \<Rightarrow> int \<Rightarrow> bool \<Rightarrow> nat \<Rightarrow> post_record list \<Rightarrow> driver
   \<Rightarrow> py_error option \<times> nat \<times> post_record list \<times> driver" where
  "replies_pass w parent_id parent_username replies_limit english_only scroll_attempts replies d =
     (case find_articles w d of
        (Inl e, d1) \<Rightarrow> (Some e, scroll_attempts, replies, d1)
      | (Inr reply_elements, d1) \<Rightarrow>
          (case reply_for w parent_id parent_username replies_limit english_only
                  (drop 1 reply_elements) replies d1 of
             (replies1, d2) \<Rightarrow>
               (case scroll_to_bottom w d2 of
                  (Inl e, d3) \<Rightarrow> (Some e, scroll_attempts, replies1, d3)
                | (Inr u, d3) \<Rightarrow>
                    (case read_height w d3 of
                       (Inl e, d4) \<Rightarrow> (Some e, scroll_attempts, replies1, d4)
                     | (Inr current_height, d4) \<Rightarrow>
                         (case read_height w d4 of
                            (Inl e, d5) \<Rightarrow> (Some e, scroll_attempts, replies1, d5)
                          | (Inr height_again, d5) \<Rightarrow>
                              (None,
                               if current_height = height_again then scroll_attempts + 1 else 0,
                               replies1, d5))))))"

text \<open>
  Lines 312-404: the scroll loop, with fuel for the number of passes (\<open>None\<close>: the
  fuel ran out before the loop ended).
\<close>

fun replies_loop ::
  "nat \<Rightarrow> world \<Rightarrow> string \<Rightarrow> string \<Rightarrow> int \<Rightarrow> bool \<Rightarrow> nat \<Rightarrow> post_record list \<Rightarrow> driver
   \<Rightarrow> (py_error option \<times> post_record list \<times> driver) option" where
  "replies_loop 0 w parent_id parent_username replies_limit english_only scroll_attempts replies d
     = None"
| "replies_loop (Suc n) w parent_id parent_username replies_limit english_only scroll_attempts
     replies d =
     (if scroll_attempts < 10 \<and> int (length replies) < replies_limit then
        (case replies_pass w parent_id parent_username replies_limit english_only
                scroll_attempts replies d of
           (Some e, sa, replies', d') \<Rightarrow> Some (Some e, replies', d')
         | (None, sa, replies', d') \<Rightarrow>
             replies_loop n w parent_id parent_username replies_limit english_only sa replies' d')
      else Some (None, replies, d))"

text \<open>Lines 301-302.\<close>

definition open_thread :: "world \<Rightarrow> string \<Rightarrow> driver \<Rightarrow> (py_error + unit) \<times> driver" where
  "open_thread w tweet_url d =
     then_do (window_open w tweet_url d) (\<lambda>u d1.
     then_do (get_window_handles w d1) (\<lambda>hs d2.
       if hs = [] then (Inl IndexError, d2) else switch_to_window w (last hs) d2))"

text \<open>Lines 407-408.\<close>

definition close_thread :: "world \<Rightarrow> driver \<Rightarrow> (py_error + unit) \<times> driver" where
  "close_thread w d =
     then_do (close_window w d) (\<lambda>u d1.
     then_do (get_window_handles w d1) (\<lambda>hs d2.
       (case hs of [] \<Rightarrow> (Inl IndexError, d2) | h # t \<Rightarrow> switch_to_window w h d2)))"

text \<open>Lines 410-415: the handler.  An exception raised in it leaves the function.\<close>

definition replies_handler ::
  "world \<Rightarrow> post_record list \<Rightarrow> driver \<Rightarrow> (py_error + post_record list) \<times> driver" where
  "replies_handler w replies d =
     then_do (get_window_handles w d) (\<lambda>hs d1.
       if 1 < length hs
       then then_do (close_thread w d1) (\<lambda>u d2. (Inr replies, d2))
       else (Inr replies, d1))"

text \<open>Lines 294-417.\<close>

definition get_twitter_replies ::
  "nat \<Rightarrow> world \<Rightarrow> driver \<Rightarrow> string \<Rightarrow> string \<Rightarrow> string \<Rightarrow> int \<Rightarrow> bool
   \<Rightarrow> ((py_error + post_record list) \<times> driver) option" where
  "get_twitter_replies n w d tweet_url parent_id parent_username replies_limit english_only =
     (case open_thread w tweet_url d of
        (Inl e, d1) \<Rightarrow> Some (replies_handler w [] d1)
      | (Inr u, d1) \<Rightarrow>
          (case replies_loop n w parent_id parent_username replies_limit english_only 0 [] d1 of
             None \<Rightarrow> None
           | Some (Some e, replies, d2) \<Rightarrow> Some (replies_handler w replies d2)
           | Some (None, replies, d2) \<Rightarrow>
               (case close_thread w d2 of
                  (Inl e, d3) \<Rightarrow> Some (replies_handler w replies d3)
                | (Inr u, d3) \<Rightarrow> Some (Inr replies, d3))))"

section \<open>Search crawler (scrape_twitter)\<close>

text \<open>The variables of the search loop, lines 160-166, with the driver.\<close>

record crawl_state =
  tweets_list :: "post_record list"
  processed_tweets :: "string set"
  scroll_attempts :: nat
  previous_height :: int
  browser :: driver

text \<open>Lines 241-252.\<close>

definition tweet_data :: "string \<Rightarrow> string \<Rightarrow> string option \<Rightarrow> string \<Rightarrow> metrics \<Rightarrow> post_record" where
  "tweet_data tweet_id username ts t m =
     \<lparr>post_id = tweet_id, speaker_nm = username, conversation_id = tweet_id,
      reply_to_id = None, reply_to_nm = None,
      timestamp = ts, post_text = t,
      likes = metrics_get m ''like'', shares = metrics_get m ''retweet'',
      num_comments = metrics_get m ''reply''\<rparr>"

text \<open>
  Lines 181-269: the body of the inner loop for one article.  An exception that
  leaves \<^verbatim>\<open>get_twitter_replies\<close> is caught by the handler of line 267, after the
  tweet itself has been stored.
\<close>

definition process_tweet ::
  "nat \<Rightarrow> world \<Rightarrow> int \<Rightarrow> bool \<Rightarrow> tweet_element \<Rightarrow> crawl_state \<Rightarrow> crawl_state option" where
  "process_tweet n w replies_limit english_only tweet st =
     (case article_identity tweet of
        None \<Rightarrow> Some st
      | Some (tweet_url, tweet_id) \<Rightarrow>
          if tweet_id \<in> processed_tweets st then Some st
          else if is_reply tweet then Some st
          else
            let username = get_username tweet;
                t = get_text tweet
            in (case language_skip w english_only t (browser st) of
                  (True, d1) \<Rightarrow> Some (st\<lparr>browser := d1\<rparr>)
                | (False, d1) \<Rightarrow>
                    let m = get_metrics tweet;
                        st1 = st\<lparr>tweets_list :=
                                   tweets_list st
                                   @ [tweet_data tweet_id username (get_timestamp w d1 tweet) t m],
                                 processed_tweets := insert tweet_id (processed_tweets st),
                                 browser := d1\<rparr>
                    in if 0 < metrics_get m ''reply'' then
                         (case get_twitter_replies n w d1 tweet_url tweet_id username
                                 replies_limit english_only of
                            None \<Rightarrow> None
                          | Some (Inl e, d2) \<Rightarrow> Some (st1\<lparr>browser := d2\<rparr>)
                          | Some (Inr replies, d2) \<Rightarrow>
                              Some (st1\<lparr>tweets_list := tweets_list st1 @ replies,
                                        browser := d2\<rparr>))
                       else Some st1))"

text \<open>Lines 177-269.\<close>

fun tweet_for ::
  "nat \<Rightarrow> world \<Rightarrow> int \<Rightarrow> int \<Rightarrow> bool \<Rightarrow> tweet_element list \<Rightarrow> crawl_state
   \<Rightarrow> crawl_state option" where
  "tweet_for n w limit replies_limit english_only [] st = Some st"
| "tweet_for n w limit replies_limit english_only (tweet # rest) st =
     (if limit \<le> int (card (processed_tweets st)) then Some st
      else
        (case process_tweet n w replies_limit english_only tweet st of
           None \<Rightarrow> None
         | Some st' \<Rightarrow> tweet_for n w limit replies_limit english_only rest st'))"

text \<open>
  Lines 170-288: one pass of the search loop.  An exception of the article query, of
  the scroll or of the height query reaches the handler of line 286.
\<close>

definition search_pass ::
  "nat \<Rightarrow> world \<Rightarrow> int \<Rightarrow> int \<Rightarrow> bool \<Rightarrow> crawl_state \<Rightarrow> crawl_state option" where
  "search_pass n w limit replies_limit english_only st =
     (case find_articles w (browser st) of
        (Inl e, d1) \<Rightarrow> Some (st\<lparr>scroll_attempts := scroll_attempts st + 1, browser := d1\<rparr>)
      | (Inr tweet_elements, d1) \<Rightarrow>
          (case tweet_for n w limit replies_limit english_only tweet_elements
                  (st\<lparr>browser := d1\<rparr>) of
             None \<Rightarrow> None
           | Some st1 \<Rightarrow>
               (case scroll_to_bottom w (browser st1) of
                  (Inl e, d2) \<Rightarrow>
                    Some (st1\<lparr>scroll_attempts := scroll_attempts st1 + 1, browser := d2\<rparr>)
                | (Inr u, d2) \<Rightarrow>
                    (case read_height w d2 of
                       (Inl e, d3) \<Rightarrow>
                         Some (st1\<lparr>scroll_attempts := scroll_attempts st1 + 1, browser := d3\<rparr>)
                     | (Inr current_height, d3) \<Rightarrow>
                         Some (st1\<lparr>scroll_attempts :=
                                     (if current_height = previous_height st1
                                      then scroll_attempts st1 + 1 else 0),
                                   previous_height := current_height,
                                   browser := d3\<rparr>)))))"

text \<open>Lines 169-288: the search loop, with fuel for the number of passes.\<close>

fun search_loop ::
  "nat \<Rightarrow> nat \<Rightarrow> world \<Rightarrow> int \<Rightarrow> int \<Rightarrow> bool \<Rightarrow> crawl_state \<Rightarrow> crawl_state option" where
  "search_loop 0 n w limit replies_limit english_only st = None"
| "search_loop (Suc k) n w limit replies_limit english_only st =
     (if int (card (processed_tweets st)) < limit \<and> scroll_attempts st < 50 then
        (case search_pass n w limit replies_limit english_only st of
           None \<Rightarrow> None
         | Some st' \<Rightarrow> search_loop k n w limit replies_limit english_only st')
      else Some st)"

text \<open>Lines 139-154: a prompt is dismissed by clicking its buttons until one click raises.\<close>

fun click_all :: "world \<Rightarrow> nat \<Rightarrow> driver \<Rightarrow> driver" where
  "click_all w 0 d = d"
| "click_all w (Suc k) d =
     (case command w Click d of
        (True, d') \<Rightarrow> d'
      | (False, d') \<Rightarrow> click_all w k d')"

definition dismiss :: "world \<Rightarrow> string \<Rightarrow> driver \<Rightarrow> driver" where
  "dismiss w label d =
     (case command w (FindButtons label) d of
        (True, d') \<Rightarrow> d'
      | (False, d') \<Rightarrow> click_all w (buttons w (length (calls d))) d')"

text \<open>Lines 130-131.\<close>

definition search_url :: "string \<Rightarrow> bool \<Rightarrow> string \<Rightarrow> string \<Rightarrow> string" where
  "search_url topic english_only formatted_start formatted_end =
     ''https://twitter.com/search?q='' @ topic
     @ (if english_only then ''%20lang%3Aen'' else [])
     @ ''%20until%3A'' @ formatted_end @ ''%20since%3A'' @ formatted_start
     @ ''&src=typed_query&f=top''"

text \<open>
  Lines 116-292.  The result is what the call returns or raises, and the calls made
  on the way; \<open>None\<close> when the fuel ran out in one of the loops.
\<close>

definition scrape_twitter ::
  "nat \<Rightarrow> world \<Rightarrow> string \<Rightarrow> string \<Rightarrow> string \<Rightarrow> int \<Rightarrow> int \<Rightarrow> bool \<Rightarrow> bool
   \<Rightarrow> ((py_error + post_record list) \<times> call list) option" where
  "scrape_twitter n w topic start_date end_date limit replies_limit headless english_only =
     (case formatted_date w start_date of
        Inl e \<Rightarrow> Some (Inl e, [])
      | Inr formatted_start \<Rightarrow>
     (case formatted_date w end_date of
        Inl e \<Rightarrow> Some (Inl e, [])
      | Inr formatted_end \<Rightarrow>
     (case setup_driver w headless of
        Inl e \<Rightarrow> Some (Inl e, [])
      | Inr d0 \<Rightarrow>
     (case driver_get w (search_url topic english_only formatted_start formatted_end) d0 of
        (Inl e, d1) \<Rightarrow>
          (case driver_quit w d1 of
             (Inl e', d2) \<Rightarrow> Some (Inl e', calls d2)
           | (Inr u, d2) \<Rightarrow> Some (Inr [], calls d2))
      | (Inr u, d1) \<Rightarrow>
          let d2 = dismiss w ''Not now'' (dismiss w ''Dismiss'' d1) in
          (case read_height w d2 of
             (Inl e, d3) \<Rightarrow> Some (Inl e, calls d3)
           | (Inr h, d3) \<Rightarrow>
               (case search_loop n n w limit replies_limit english_only
                       \<lparr>tweets_list = [], processed_tweets = {}, scroll_attempts = 0,
                        previous_height = h, browser = d3\<rparr> of
                  None \<Rightarrow> None
                | Some st \<Rightarrow>
                    (case driver_quit w (browser st) of
                       (Inl e, d4) \<Rightarrow> Some (Inl e, calls d4)
                     | (Inr u, d4) \<Rightarrow> Some (Inr (tweets_list st), calls d4))))))))"

section \<open>Command line (parse_arguments, main)\<close>

text \<open>
  The namespace returned by \<^verbatim>\<open>parse_arguments\<close>: one field per option of the
  argument parser, with the parser's types (\<^verbatim>\<open>type=int\<close> is an unbounded integer,
  \<^verbatim>\<open>store_true\<close> a boolean).
\<close>

record args =
  args_topic :: string
  args_start_date :: string
  args_end_date :: string
  args_output :: string
  args_limit :: int
  args_replies_limit :: int
  args_headless :: bool
  args_english_only :: bool

text \<open>
  \<^verbatim>\<open>main\<close>, lines 460-463: the assignment \<^verbatim>\<open>args.limit = 120\<close> guarded by
  \<^verbatim>\<open>args.limit == 50\<close>.
\<close>

definition update_limit :: "args \<Rightarrow> args" where
  "update_limit a = (if args_limit a = 50 then a\<lparr>args_limit := 120\<rparr> else a)"

text \<open>
  \<^verbatim>\<open>main\<close>, lines 455-476: what is handed to \<^verbatim>\<open>save_to_csv\<close> (the rows and the
  file name), with the calls made.  \<^verbatim>\<open>english_only=True\<close> is a literal of the call
  of line 467.
\<close>

definition main ::
  "nat \<Rightarrow> world \<Rightarrow> args \<Rightarrow> (post_record list \<times> string \<times> call list) option" where
  "main n w parsed =
     (let a = update_limit parsed in
      (case scrape_twitter n w (args_topic a) (args_start_date a) (args_end_date a)
              (args_limit a) (args_replies_limit a) (args_headless a) True of
         None \<Rightarrow> None
       | Some (Inl e, cs) \<Rightarrow> Some ([], args_output a, cs)
       | Some (Inr twitter_data, cs) \<Rightarrow> Some (twitter_data, args_output a, cs)))"

section \<open>Predicates of the specification\<close>


definition is_reply_record :: "string \<Rightarrow> string \<Rightarrow> post_record \<Rightarrow> bool" where
  "is_reply_record root_id root_author r =
     (conversation_id r = root_id \<and> reply_to_id r = Some root_id
      \<and> reply_to_nm r = Some root_author)"


text \<open>
  A list of calls in which the language detector is only ever called on a non-empty
  text, and only when the restriction is enabled.
\<close>

definition detect_ok :: "bool \<Rightarrow> call list \<Rightarrow> bool" where
  "detect_ok english_only cs =
     list_all (\<lambda>c. case c of Detect t \<Rightarrow> english_only \<and> t \<noteq> [] | _ \<Rightarrow> True) cs"

text \<open>The number of scrolls among a list of calls.\<close>

definition scrolls :: "call list \<Rightarrow> nat" where
  "scrolls cs = length (filter (\<lambda>c. c = ScrollToBottom) cs)"


text \<open>The ids of the records of a list that have no reply-to id (the root records).\<close>

definition root_ids :: "post_record list \<Rightarrow> string list" where
  "root_ids rows = map post_id (filter (\<lambda>r. reply_to_id r = None) rows)"

text \<open>Two driver states with the same windows, focus and next handle.\<close>

definition same_windows :: "driver \<Rightarrow> driver \<Rightarrow> bool" where
  "same_windows d d' =
     (window_handles d' = window_handles d \<and> current_window d' = current_window d
      \<and> next_handle d' = next_handle d)"

section \<open>Concrete pages and worlds\<close>

text \<open>An element of the grouped query with a given test id and text.\<close>

definition metric_group :: "string \<Rightarrow> string \<Rightarrow> group_element" where
  "metric_group k t = \<lparr>ge_testid = Inr (Some k), ge_text = Inr t\<rparr>"

text \<open>
  An article with one status link, an author link, a text, a time stamp, the given
  elements of the grouped query and the given spans per metric, and no
  social-context marker.
\<close>

definition article ::
  "string \<Rightarrow> string \<Rightarrow> string \<Rightarrow> group_element list \<Rightarrow> (string \<Rightarrow> string list)
   \<Rightarrow> tweet_element" where
  "article url user t groups spans =
     \<lparr>status_links = Inr [Inr (Some url)],
      social_context = Inl WebDriverException,
      user_name_div_link = Inr (Some (''https://twitter.com/'' @ user)),
      user_name_link = Inl WebDriverException,
      tweet_text = Inr t,
      time_datetime = Inr (Some ''2024-01-01T00:00:00.000Z''),
      metric_groups = Inr groups,
      metric_spans = (\<lambda>k. Inr (map Inr (spans k)))\<rparr>"

text \<open>A post by alice with one reply, and the reply by bob.\<close>

definition root_article :: tweet_element where
  "root_article =
     article ''https://twitter.com/alice/status/100'' ''alice'' ''hello''
       [metric_group ''reply'' ''1'', metric_group ''like'' ''1.2K''] (\<lambda>k. [])"

definition reply_article :: tweet_element where
  "reply_article =
     article ''https://twitter.com/bob/status/101'' ''bob'' ''hi'' [] (\<lambda>k. [])"

text \<open>A post with an empty text and no replies.\<close>

definition textless_article :: tweet_element where
  "textless_article =
     article ''https://twitter.com/carol/status/102'' ''carol'' [] [] (\<lambda>k. [])"

text \<open>An article whose like count is only found by the spans of the second approach.\<close>

definition span_article :: "string \<Rightarrow> tweet_element" where
  "span_article count_text =
     article ''https://twitter.com/dave/status/103'' ''dave'' ''count''
       [] (\<lambda>k. if k = ''like'' then [count_text] else [])"

text \<open>An article whose like count is found by the grouped query of the first approach.\<close>

definition group_article :: "string \<Rightarrow> tweet_element" where
  "group_article count_text =
     article ''https://twitter.com/dave/status/103'' ''dave'' ''count''
       [metric_group ''like'' count_text] (\<lambda>k. [])"


text \<open>
  A world in which no call raises, every page shows the given articles, the
  document is 1000 high throughout and every text is detected as the given language.
\<close>

definition still_world :: "tweet_element list \<Rightarrow> string \<Rightarrow> world" where
  "still_world page lang =
     \<lparr>driver_starts = True, formatted_date = Inr, raises = (\<lambda>n. False),
      articles = (\<lambda>n. page), buttons = (\<lambda>n. 0), scroll_height = (\<lambda>n. 1000),
      detected = (\<lambda>n. lang), clock = (\<lambda>n. ''2024-01-01T00:00:00'')\<rparr>"

text \<open>
  A thread page that shows the post alone and grows by 1000 with every scroll.
  Started on a new driver, the thread crawler scrolls with its calls number 4, 8,
  12, ...; the document is \<open>1000 * (k + 1)\<close> high when the scroll of pass \<open>k\<close> is
  issued and \<open>1000 * (k + 2)\<close> at both reads that follow it.
\<close>

definition growing_world :: world where
  "growing_world =
     (still_world [root_article] ''en'')\<lparr>scroll_height := (\<lambda>n. 1000 * int ((n + 3) div 4))\<rparr>"

text \<open>A world in which the third call, and only it, raises.\<close>

definition third_call_fails_world :: world where
  "third_call_fails_world = (still_world [root_article, reply_article] ''en'')\<lparr>raises := (\<lambda>n. n = 2)\<rparr>"

text \<open>Command-line arguments.\<close>

definition example_args :: args where
  "example_args =
     \<lparr>args_topic = ''cats'', args_start_date = ''2024-01-01'', args_end_date = ''2024-01-31'',
      args_output = ''twitter_data.csv'', args_limit = 1, args_replies_limit = 2,
      args_headless = True, args_english_only = False\<rparr>"

text \<open>What a run returns: the ids of the rows, the rows, the replies of a thread.\<close>

definition returned_rows ::
  "((py_error + post_record list) \<times> call list) option \<Rightarrow> post_record list option" where
  "returned_rows res =
     (case res of
        Some (Inr rows, cs) \<Rightarrow> Some rows
      | _ \<Rightarrow> None)"

definition returned_replies ::
  "((py_error + post_record list) \<times> driver) option \<Rightarrow> post_record list option" where
  "returned_replies res =
     (case res of
        Some (Inr replies, d) \<Rightarrow> Some replies
      | _ \<Rightarrow> None)"

section \<open>Lemmas: engagement counts\<close>




lemma primary_loop_bound: "fst (primary_loop els True m) = None"
  by (induction els arbitrary: m) (auto split: sum.splits)



lemma primary_approach_raises:
  "fst (primary_approach t) = Some e \<Longrightarrow> snd (primary_approach t) = metrics_init"
proof (cases "metric_groups t")
  case (Inl x)
  then show ?thesis by (simp add: primary_approach_def)
next
  case (Inr els)
  assume r: "fst (primary_approach t) = Some e"
  show ?thesis
  proof (cases els)
    case Nil
    with Inr show ?thesis by (simp add: primary_approach_def)
  next
    case (Cons el rest)
    with Inr r show ?thesis
      by (auto simp: primary_approach_def primary_loop_bound split: sum.splits if_splits)
  qed
qed




section \<open>Lemmas: the thread crawler\<close>

subsection \<open>The number of replies\<close>

lemma process_reply_length:
  "process_reply w pid pn eo reply replies d = (replies', d') \<Longrightarrow>
   length replies' \<le> Suc (length replies)"
  by (auto simp: process_reply_def Let_def split: option.splits prod.splits bool.splits)

lemma reply_for_bound:
  "length replies \<le> nat lm \<Longrightarrow>
   reply_for w pid pn lm eo els replies d = (replies', d') \<Longrightarrow>
   length replies' \<le> nat lm"
proof (induction els arbitrary: replies d)
  case Nil
  then show ?case by simp
next
  case (Cons reply rest)
  show ?case
  proof (cases "lm \<le> int (length replies)")
    case True
    with Cons.prems show ?thesis by simp
  next
    case False
    obtain r1 d1 where pr: "process_reply w pid pn eo reply replies d = (r1, d1)"
      by (cases "process_reply w pid pn eo reply replies d")
    from process_reply_length[OF pr] False have "length r1 \<le> nat lm" by linarith
    moreover from Cons.prems(2) False pr
    have "reply_for w pid pn lm eo rest r1 d1 = (replies', d')" by simp
    ultimately show ?thesis by (rule Cons.IH)
  qed
qed

lemma replies_pass_bound:
  "length replies \<le> nat lm \<Longrightarrow>
   replies_pass w pid pn lm eo sa replies d = (e, sa', replies', d') \<Longrightarrow>
   length replies' \<le> nat lm"
  by (auto simp: replies_pass_def split: prod.splits sum.splits dest: reply_for_bound)

lemma replies_loop_bound:
  "length replies \<le> nat lm \<Longrightarrow>
   replies_loop n w pid pn lm eo sa replies d = Some (e, replies', d') \<Longrightarrow>
   length replies' \<le> nat lm"
proof (induction n arbitrary: sa replies d)
  case 0
  then show ?case by simp
next
  case (Suc n)
  show ?case
  proof (cases "sa < 10 \<and> int (length replies) < lm")
    case False
    with Suc.prems show ?thesis by auto
  next
    case True
    obtain e1 sa1 r1 d1 where rp: "replies_pass w pid pn lm eo sa replies d = (e1, sa1, r1, d1)"
      by (cases "replies_pass w pid pn lm eo sa replies d") auto
    have b: "length r1 \<le> nat lm" using replies_pass_bound[OF Suc.prems(1) rp] .
    show ?thesis
    proof (cases e1)
      case None
      with Suc.prems(2) True rp
      have "replies_loop n w pid pn lm eo sa1 r1 d1 = Some (e, replies', d')" by simp
      with b show ?thesis by (rule Suc.IH)
    next
      case (Some x)
      with Suc.prems(2) True rp b show ?thesis by auto
    qed
  qed
qed

lemma replies_handler_returns:
  "replies_handler w replies d = (Inr rs, d') \<Longrightarrow> rs = replies"
  by (auto simp: replies_handler_def then_do_def split: prod.splits sum.splits if_splits)

subsection \<open>The calls made\<close>

lemma detect_ok_append:
  "detect_ok eo (cs @ [c]) = (detect_ok eo cs \<and> (case c of Detect t \<Rightarrow> eo \<and> t \<noteq> [] | _ \<Rightarrow> True))"
  by (simp add: detect_ok_def)

lemma calls_command: "calls (snd (command w c d)) = calls d @ [c]"
  by (simp add: command_def)

lemma detect_ok_find_articles:
  "detect_ok eo (calls d) \<Longrightarrow> detect_ok eo (calls (snd (find_articles w d)))"
  by (simp add: find_articles_def command_def detect_ok_append split: prod.splits bool.splits)

lemma detect_ok_scroll:
  "detect_ok eo (calls d) \<Longrightarrow> detect_ok eo (calls (snd (scroll_to_bottom w d)))"
  by (simp add: scroll_to_bottom_def command_def detect_ok_append split: prod.splits bool.splits)

lemma detect_ok_read_height:
  "detect_ok eo (calls d) \<Longrightarrow> detect_ok eo (calls (snd (read_height w d)))"
  by (simp add: read_height_def command_def detect_ok_append split: prod.splits bool.splits)

lemma detect_ok_window_open:
  "detect_ok eo (calls d) \<Longrightarrow> detect_ok eo (calls (snd (window_open w u d)))"
  by (simp add: window_open_def command_def detect_ok_append split: prod.splits bool.splits)

lemma detect_ok_handles:
  "detect_ok eo (calls d) \<Longrightarrow> detect_ok eo (calls (snd (get_window_handles w d)))"
  by (simp add: get_window_handles_def command_def detect_ok_append split: prod.splits bool.splits)

lemma detect_ok_switch:
  "detect_ok eo (calls d) \<Longrightarrow> detect_ok eo (calls (snd (switch_to_window w h d)))"
  by (simp add: switch_to_window_def command_def detect_ok_append split: prod.splits bool.splits)

lemma detect_ok_close:
  "detect_ok eo (calls d) \<Longrightarrow> detect_ok eo (calls (snd (close_window w d)))"
  by (simp add: close_window_def command_def detect_ok_append split: prod.splits bool.splits)

lemma detect_ok_quit:
  "detect_ok eo (calls d) \<Longrightarrow> detect_ok eo (calls (snd (driver_quit w d)))"
  by (simp add: driver_quit_def command_def detect_ok_append split: prod.splits bool.splits)

lemma detect_ok_get:
  "detect_ok eo (calls d) \<Longrightarrow> detect_ok eo (calls (snd (driver_get w u d)))"
  by (simp add: driver_get_def command_def detect_ok_append split: prod.splits bool.splits)

lemma detect_ok_then_do:
  assumes "detect_ok eo (calls (snd r))"
    and "\<And>v d1. detect_ok eo (calls d1) \<Longrightarrow> detect_ok eo (calls (snd (f v d1)))"
  shows "detect_ok eo (calls (snd (then_do r f)))"
  using assms by (cases r) (auto simp: then_do_def split: sum.splits)

lemma detect_ok_open_thread:
  "detect_ok eo (calls d) \<Longrightarrow> detect_ok eo (calls (snd (open_thread w u d)))"
  unfolding open_thread_def
  by (intro detect_ok_then_do detect_ok_window_open) (auto intro: detect_ok_handles detect_ok_switch detect_ok_then_do)

lemma detect_ok_close_thread:
  "detect_ok eo (calls d) \<Longrightarrow> detect_ok eo (calls (snd (close_thread w d)))"
  unfolding close_thread_def
  by (intro detect_ok_then_do detect_ok_close) (auto intro: detect_ok_handles detect_ok_switch detect_ok_then_do split: list.splits)

lemma detect_ok_handler:
  "detect_ok eo (calls d) \<Longrightarrow> detect_ok eo (calls (snd (replies_handler w rs d)))"
  unfolding replies_handler_def
  by (intro detect_ok_then_do detect_ok_handles) (auto intro: detect_ok_close_thread detect_ok_then_do)

lemma detect_ok_language_skip:
  "detect_ok eo (calls d) \<Longrightarrow> detect_ok eo (calls (snd (language_skip w eo t d)))"
  by (auto simp: language_skip_def is_english_text_def langdetect_detect_def command_def
      detect_ok_append split: prod.splits bool.splits sum.splits)

lemma detect_ok_process_reply:
  "detect_ok eo (calls d) \<Longrightarrow> detect_ok eo (calls (snd (process_reply w pid pn eo reply replies d)))"
  using detect_ok_language_skip[of eo d w "get_text reply"]
  by (auto simp: process_reply_def Let_def split: option.splits prod.splits bool.splits)

lemma detect_ok_reply_for:
  "detect_ok eo (calls d) \<Longrightarrow> detect_ok eo (calls (snd (reply_for w pid pn lm eo els replies d)))"
proof (induction els arbitrary: replies d)
  case Nil
  then show ?case by simp
next
  case (Cons reply rest)
  obtain r1 d1 where pr: "process_reply w pid pn eo reply replies d = (r1, d1)"
    by (cases "process_reply w pid pn eo reply replies d")
  with detect_ok_process_reply[OF Cons.prems, of w pid pn reply replies]
  have "detect_ok eo (calls d1)" by simp
  then have "detect_ok eo (calls (snd (reply_for w pid pn lm eo rest r1 d1)))" by (rule Cons.IH)
  with pr Cons.prems show ?case by simp
qed

lemma detect_ok_replies_pass:
  assumes "detect_ok eo (calls d)"
    and "replies_pass w pid pn lm eo sa replies d = (e, sa', replies', d')"
  shows "detect_ok eo (calls d')"
proof -
  obtain r1 d1 where fa: "find_articles w d = (r1, d1)" by (cases "find_articles w d")
  with detect_ok_find_articles[OF assms(1), of w] have ok1: "detect_ok eo (calls d1)" by simp
  show ?thesis
  proof (cases r1)
    case (Inl x)
    with fa assms(2) ok1 show ?thesis by (simp add: replies_pass_def)
  next
    case (Inr els)
    obtain rs2 d2 where rf: "reply_for w pid pn lm eo (drop 1 els) replies d1 = (rs2, d2)"
      by (cases "reply_for w pid pn lm eo (drop 1 els) replies d1")
    with detect_ok_reply_for[OF ok1, of w pid pn lm "drop 1 els" replies]
    have ok2: "detect_ok eo (calls d2)" by simp
    obtain r3 d3 where sc: "scroll_to_bottom w d2 = (r3, d3)" by (cases "scroll_to_bottom w d2")
    with detect_ok_scroll[OF ok2, of w] have ok3: "detect_ok eo (calls d3)" by simp
    obtain r4 d4 where h1: "read_height w d3 = (r4, d4)" by (cases "read_height w d3")
    with detect_ok_read_height[OF ok3, of w] have ok4: "detect_ok eo (calls d4)" by simp
    obtain r5 d5 where h2: "read_height w d4 = (r5, d5)" by (cases "read_height w d4")
    with detect_ok_read_height[OF ok4, of w] have ok5: "detect_ok eo (calls d5)" by simp
    from assms(2) fa Inr rf sc h1 h2 ok3 ok4 ok5 show ?thesis
      by (auto simp: replies_pass_def split: sum.splits)
  qed
qed

lemma detect_ok_replies_loop:
  "detect_ok eo (calls d) \<Longrightarrow>
   replies_loop n w pid pn lm eo sa replies d = Some (e, replies', d') \<Longrightarrow>
   detect_ok eo (calls d')"
proof (induction n arbitrary: sa replies d)
  case 0
  then show ?case by simp
next
  case (Suc n)
  show ?case
  proof (cases "sa < 10 \<and> int (length replies) < lm")
    case False
    with Suc.prems show ?thesis by auto
  next
    case True
    obtain e1 sa1 r1 d1 where rp: "replies_pass w pid pn lm eo sa replies d = (e1, sa1, r1, d1)"
      by (cases "replies_pass w pid pn lm eo sa replies d") auto
    have ok: "detect_ok eo (calls d1)" using detect_ok_replies_pass[OF Suc.prems(1) rp] .
    show ?thesis
    proof (cases e1)
      case None
      with Suc.prems(2) True rp
      have "replies_loop n w pid pn lm eo sa1 r1 d1 = Some (e, replies', d')" by simp
      with ok show ?thesis by (rule Suc.IH)
    next
      case (Some x)
      with Suc.prems(2) True rp ok show ?thesis by auto
    qed
  qed
qed

lemma detect_ok_get_twitter_replies:
  assumes "detect_ok eo (calls d)"
    and "get_twitter_replies n w d u pid pn lm eo = Some (r, d')"
  shows "detect_ok eo (calls d')"
proof -
  obtain r1 d1 where ot: "open_thread w u d = (r1, d1)" by (cases "open_thread w u d")
  with detect_ok_open_thread[OF assms(1), of w u] have ok1: "detect_ok eo (calls d1)" by simp
  show ?thesis
  proof (cases r1)
    case (Inl x)
    with ot assms(2) detect_ok_handler[OF ok1, of w "[]"] show ?thesis
      by (auto simp: get_twitter_replies_def)
  next
    case (Inr x)
    show ?thesis
    proof (cases "replies_loop n w pid pn lm eo 0 [] d1")
      case None
      with ot Inr assms(2) show ?thesis by (simp add: get_twitter_replies_def)
    next
      case (Some res)
      obtain e rs d2 where res: "res = (e, rs, d2)" by (cases res) auto
      have ok2: "detect_ok eo (calls d2)"
        using detect_ok_replies_loop[OF ok1] Some res by simp
      obtain r3 d3 where ct: "close_thread w d2 = (r3, d3)" by (cases "close_thread w d2")
      with detect_ok_close_thread[OF ok2, of w] have ok3: "detect_ok eo (calls d3)" by simp
      from ot Inr Some res ct assms(2) detect_ok_handler[OF ok2, of w rs]
        detect_ok_handler[OF ok3, of w rs] ok3
      show ?thesis
        by (auto simp: get_twitter_replies_def split: option.splits sum.splits)
    qed
  qed
qed

subsection \<open>The shape of the records\<close>

lemma process_reply_shape:
  "\<forall>r\<in>set replies. is_reply_record pid pn r \<Longrightarrow>
   process_reply w pid pn eo reply replies d = (replies', d') \<Longrightarrow>
   \<forall>r\<in>set replies'. is_reply_record pid pn r"
  by (auto simp: process_reply_def Let_def is_reply_record_def reply_data_def
      split: option.splits prod.splits bool.splits)

lemma reply_for_shape:
  "\<forall>r\<in>set replies. is_reply_record pid pn r \<Longrightarrow>
   reply_for w pid pn lm eo els replies d = (replies', d') \<Longrightarrow>
   \<forall>r\<in>set replies'. is_reply_record pid pn r"
proof (induction els arbitrary: replies d)
  case Nil
  then show ?case by simp
next
  case (Cons reply rest)
  show ?case
  proof (cases "lm \<le> int (length replies)")
    case True
    with Cons.prems show ?thesis by simp
  next
    case False
    obtain r1 d1 where pr: "process_reply w pid pn eo reply replies d = (r1, d1)"
      by (cases "process_reply w pid pn eo reply replies d")
    have "\<forall>r\<in>set r1. is_reply_record pid pn r"
      using process_reply_shape[OF Cons.prems(1) pr] .
    moreover from Cons.prems(2) False pr
    have "reply_for w pid pn lm eo rest r1 d1 = (replies', d')" by simp
    ultimately show ?thesis by (rule Cons.IH)
  qed
qed

lemma replies_pass_shape:
  "\<forall>r\<in>set replies. is_reply_record pid pn r \<Longrightarrow>
   replies_pass w pid pn lm eo sa replies d = (e, sa', replies', d') \<Longrightarrow>
   \<forall>r\<in>set replies'. is_reply_record pid pn r"
  by (auto simp: replies_pass_def split: prod.splits sum.splits dest: reply_for_shape)

lemma replies_loop_shape:
  "\<forall>r\<in>set replies. is_reply_record pid pn r \<Longrightarrow>
   replies_loop n w pid pn lm eo sa replies d = Some (e, replies', d') \<Longrightarrow>
   \<forall>r\<in>set replies'. is_reply_record pid pn r"
proof (induction n arbitrary: sa replies d)
  case 0
  then show ?case by simp
next
  case (Suc n)
  show ?case
  proof (cases "sa < 10 \<and> int (length replies) < lm")
    case False
    with Suc.prems show ?thesis by auto
  next
    case True
    obtain e1 sa1 r1 d1 where rp: "replies_pass w pid pn lm eo sa replies d = (e1, sa1, r1, d1)"
      by (cases "replies_pass w pid pn lm eo sa replies d") auto
    have b: "\<forall>r\<in>set r1. is_reply_record pid pn r"
      using replies_pass_shape[OF Suc.prems(1) rp] .
    show ?thesis
    proof (cases e1)
      case None
      with Suc.prems(2) True rp
      have "replies_loop n w pid pn lm eo sa1 r1 d1 = Some (e, replies', d')" by simp
      with b show ?thesis by (rule Suc.IH)
    next
      case (Some x)
      with Suc.prems(2) True rp b show ?thesis by auto
    qed
  qed
qed

lemma get_twitter_replies_shape:
  assumes "get_twitter_replies n w d u pid pn lm eo = Some (Inr replies, d')"
  shows "\<forall>r\<in>set replies. is_reply_record pid pn r"
proof (cases "open_thread w u d")
  case (Pair r d1)
  show ?thesis
  proof (cases r)
    case (Inl e)
    with Pair assms have "replies_handler w [] d1 = (Inr replies, d')"
      by (simp add: get_twitter_replies_def)
    then have "replies = []" by (rule replies_handler_returns)
    then show ?thesis by simp
  next
    case (Inr x)
    show ?thesis
    proof (cases "replies_loop n w pid pn lm eo 0 [] d1")
      case None
      with Pair Inr assms show ?thesis by (simp add: get_twitter_replies_def)
    next
      case (Some res)
      obtain e rs d2 where res: "res = (e, rs, d2)" by (cases res) auto
      have b: "\<forall>r\<in>set rs. is_reply_record pid pn r"
        using replies_loop_shape[of "[]" pid pn n w lm eo 0 d1 e rs d2] Some res by simp
      from Pair Inr Some res assms have "replies = rs"
        by (auto simp: get_twitter_replies_def split: option.splits prod.splits sum.splits
            dest: replies_handler_returns)
      with b show ?thesis by simp
    qed
  qed
qed

section \<open>Lemmas: the search crawler\<close>

subsection \<open>The shape of the records\<close>





lemma process_tweet_cases:
  assumes "process_tweet n w rl eo tweet st = Some st'"
  obtains
    (passed) "st' = st"
      "article_identity tweet = None
       \<or> (\<exists>url i. article_identity tweet = Some (url, i)
                    \<and> (i \<in> processed_tweets st \<or> is_reply tweet))"
  | (language) d1 where
      "language_skip w eo (get_text tweet) (browser st) = (True, d1)"
      "st' = st\<lparr>browser := d1\<rparr>"
  | (stored) url i d1 d2 replies where
      "article_identity tweet = Some (url, i)"
      "i \<notin> processed_tweets st"
      "language_skip w eo (get_text tweet) (browser st) = (False, d1)"
      "replies = [] \<or> get_twitter_replies n w d1 url i (get_username tweet) rl eo
                      = Some (Inr replies, d2)"
      "d2 = d1 \<or> (\<exists>r. get_twitter_replies n w d1 url i (get_username tweet) rl eo = Some (r, d2))"
      "tweets_list st' =
         (tweets_list st
          @ [tweet_data i (get_username tweet) (get_timestamp w d1 tweet)
               (get_text tweet) (get_metrics tweet)]) @ replies"
      "processed_tweets st' = insert i (processed_tweets st)"
      "browser st' = d2"
proof (cases "article_identity tweet")
  case None
  with assms have "st' = st" by (simp add: process_tweet_def)
  with None show ?thesis by (intro passed) simp_all
next
  case (Some ui)
  obtain url i where ui: "ui = (url, i)" by (cases ui)
  note id = Some[unfolded ui]
  show ?thesis
  proof (cases "i \<in> processed_tweets st \<or> is_reply tweet")
    case True
    with id assms have "st' = st" by (auto simp: process_tweet_def split: if_splits)
    with id True show ?thesis by (intro passed) simp_all
  next
    case False
    then have fresh: "i \<notin> processed_tweets st" "\<not> is_reply tweet" by simp_all
    obtain skip d1 where ls: "language_skip w eo (get_text tweet) (browser st) = (skip, d1)"
      by (cases "language_skip w eo (get_text tweet) (browser st)")
    show ?thesis
    proof (cases skip)
      case True
      with id fresh ls assms have "st' = st\<lparr>browser := d1\<rparr>"
        by (simp add: process_tweet_def)
      with ls True show ?thesis by (intro language) simp_all
    next
      case nskip: False
      show ?thesis
      proof (cases "0 < metrics_get (get_metrics tweet) ''reply''")
        case False
        with id fresh ls nskip assms
        have "tweets_list st' =
                  (tweets_list st
                   @ [tweet_data i (get_username tweet) (get_timestamp w d1 tweet)
                        (get_text tweet) (get_metrics tweet)]) @ []
                \<and> processed_tweets st' = insert i (processed_tweets st)
                \<and> browser st' = d1"
          by (auto simp: process_tweet_def Let_def)
        with id fresh ls nskip show ?thesis by (intro stored[of url i d1 "[]" d1]) simp_all
      next
        case True
        show ?thesis
        proof (cases "get_twitter_replies n w d1 url i (get_username tweet) rl eo")
          case None
          with id fresh ls nskip True assms show ?thesis
            by (simp add: process_tweet_def Let_def)
        next
          case (Some res)
          obtain r d2 where res: "res = (r, d2)" by (cases res)
          note gt = Some[unfolded res]
          show ?thesis
          proof (cases r)
            case (Inl e)
            with id fresh ls nskip True gt assms
            have "tweets_list st' =
                  (tweets_list st
                   @ [tweet_data i (get_username tweet) (get_timestamp w d1 tweet)
                        (get_text tweet) (get_metrics tweet)]) @ []
                \<and> processed_tweets st' = insert i (processed_tweets st)
                \<and> browser st' = d2"
              by (auto simp: process_tweet_def Let_def)
            with id fresh ls nskip gt show ?thesis by (intro stored[of url i d1 "[]" d2]) auto
          next
            case (Inr replies)
            with id fresh ls nskip True gt assms
            have "tweets_list st' =
                  (tweets_list st
                   @ [tweet_data i (get_username tweet) (get_timestamp w d1 tweet)
                        (get_text tweet) (get_metrics tweet)]) @ replies
                \<and> processed_tweets st' = insert i (processed_tweets st)
                \<and> browser st' = d2"
              by (auto simp: process_tweet_def Let_def)
            with id fresh ls nskip gt Inr show ?thesis by (intro stored[of url i d1 replies d2]) auto
          qed
        qed
      qed
    qed
  qed
qed






subsection \<open>The calls made\<close>

lemma detect_ok_get_twitter_replies': 
  "detect_ok eo (calls d) \<Longrightarrow> \<exists>r. get_twitter_replies n w d u pid pn lm eo = Some (r, d') \<Longrightarrow>
   detect_ok eo (calls d')"
  using detect_ok_get_twitter_replies by blast

lemma detect_ok_process_tweet:
  assumes "detect_ok eo (calls (browser st))"
    and "process_tweet n w rl eo tweet st = Some st'"
  shows "detect_ok eo (calls (browser st'))"
  using assms(2)
proof (cases rule: process_tweet_cases)
  case passed
  with assms(1) show ?thesis by simp
next
  case (language d1)
  with detect_ok_language_skip[OF assms(1), of w "get_text tweet"] show ?thesis by simp
next
  case (stored url i d1 d2 replies)
  from detect_ok_language_skip[OF assms(1), of w "get_text tweet"] stored(3)
  have ok1: "detect_ok eo (calls d1)" by simp
  from stored(5) have "detect_ok eo (calls d2)"
  proof
    assume "d2 = d1"
    with ok1 show ?thesis by simp
  next
    assume "\<exists>r. get_twitter_replies n w d1 url i (get_username tweet) rl eo = Some (r, d2)"
    with ok1 show ?thesis by (rule detect_ok_get_twitter_replies')
  qed
  with stored(8) show ?thesis by simp
qed

lemma detect_ok_tweet_for:
  "detect_ok eo (calls (browser st)) \<Longrightarrow>
   tweet_for n w lm rl eo els st = Some st' \<Longrightarrow> detect_ok eo (calls (browser st'))"
proof (induction els arbitrary: st)
  case Nil
  then show ?case by simp
next
  case (Cons tweet rest)
  show ?case
  proof (cases "lm \<le> int (card (processed_tweets st))")
    case True
    with Cons.prems show ?thesis by simp
  next
    case False
    with Cons.prems(2) obtain st1 where
      pt: "process_tweet n w rl eo tweet st = Some st1"
      and tf: "tweet_for n w lm rl eo rest st1 = Some st'"
      by (auto split: option.splits)
    from detect_ok_process_tweet[OF Cons.prems(1) pt] tf show ?thesis by (rule Cons.IH)
  qed
qed

lemma detect_ok_search_pass:
  assumes "detect_ok eo (calls (browser st))"
    and "search_pass n w lm rl eo st = Some st'"
  shows "detect_ok eo (calls (browser st'))"
proof -
  obtain r1 d1 where fa: "find_articles w (browser st) = (r1, d1)"
    by (cases "find_articles w (browser st)")
  with detect_ok_find_articles[OF assms(1), of w] have ok1: "detect_ok eo (calls d1)" by simp
  show ?thesis
  proof (cases r1)
    case (Inl x)
    with fa assms(2) ok1 show ?thesis by (auto simp: search_pass_def)
  next
    case (Inr els)
    with fa assms(2) obtain st1 where
      tf: "tweet_for n w lm rl eo els (st\<lparr>browser := d1\<rparr>) = Some st1"
      by (auto simp: search_pass_def split: option.splits)
    have ok2: "detect_ok eo (calls (browser st1))"
      using detect_ok_tweet_for[OF _ tf] ok1 by simp
    obtain r3 d3 where sc: "scroll_to_bottom w (browser st1) = (r3, d3)"
      by (cases "scroll_to_bottom w (browser st1)")
    with detect_ok_scroll[OF ok2, of w] have ok3: "detect_ok eo (calls d3)" by simp
    obtain r4 d4 where h1: "read_height w d3 = (r4, d4)" by (cases "read_height w d3")
    with detect_ok_read_height[OF ok3, of w] have ok4: "detect_ok eo (calls d4)" by simp
    from assms(2) fa Inr tf sc h1 ok3 ok4 show ?thesis
      by (auto simp: search_pass_def split: sum.splits)
  qed
qed

lemma detect_ok_search_loop:
  "detect_ok eo (calls (browser st)) \<Longrightarrow>
   search_loop k n w lm rl eo st = Some st' \<Longrightarrow> detect_ok eo (calls (browser st'))"
proof (induction k arbitrary: st)
  case 0
  then show ?case by simp
next
  case (Suc k)
  show ?case
  proof (cases "int (card (processed_tweets st)) < lm \<and> scroll_attempts st < 50")
    case False
    with Suc.prems show ?thesis by auto
  next
    case True
    with Suc.prems(2) obtain st1 where
      sp: "search_pass n w lm rl eo st = Some st1"
      and sl: "search_loop k n w lm rl eo st1 = Some st'"
      by (auto split: option.splits)
    from detect_ok_search_pass[OF Suc.prems(1) sp] sl show ?thesis by (rule Suc.IH)
  qed
qed

lemma detect_ok_click_all:
  "detect_ok eo (calls d) \<Longrightarrow> detect_ok eo (calls (click_all w k d))"
  by (induction k arbitrary: d) (auto simp: command_def detect_ok_append split: bool.splits)

lemma detect_ok_dismiss:
  "detect_ok eo (calls d) \<Longrightarrow> detect_ok eo (calls (dismiss w l d))"
  by (auto simp: dismiss_def command_def detect_ok_append split: bool.splits
      intro!: detect_ok_click_all)

lemma detect_ok_new_driver: "detect_ok eo (calls new_driver)"
  by (simp add: new_driver_def detect_ok_def)

lemma detect_ok_scrape_twitter:
  assumes "scrape_twitter n w topic sd ed lm rl hl eo = Some (r, cs)"
  shows "detect_ok eo cs"
proof (cases "\<exists>fs fe. formatted_date w sd = Inr fs \<and> formatted_date w ed = Inr fe \<and> driver_starts w")
  case False
  with assms have "cs = []"
    by (auto simp: scrape_twitter_def setup_driver_def split: sum.splits if_splits)
  then show ?thesis by (simp add: detect_ok_def)
next
  case True
  then obtain fs fe where f: "formatted_date w sd = Inr fs" "formatted_date w ed = Inr fe"
    "setup_driver w hl = Inr new_driver"
    by (auto simp: setup_driver_def)
  obtain r1 d1 where g: "driver_get w (search_url topic eo fs fe) new_driver = (r1, d1)"
    by (cases "driver_get w (search_url topic eo fs fe) new_driver")
  with detect_ok_get[OF detect_ok_new_driver, of eo w "search_url topic eo fs fe"]
  have ok1: "detect_ok eo (calls d1)" by simp
  show ?thesis
  proof (cases r1)
    case (Inl e)
    from detect_ok_quit[OF ok1, of w] assms f g Inl show ?thesis
      by (auto simp: scrape_twitter_def split: prod.splits sum.splits)
  next
    case (Inr u)
    define d2 where "d2 = dismiss w ''Not now'' (dismiss w ''Dismiss'' d1)"
    have ok2: "detect_ok eo (calls d2)"
      unfolding d2_def by (intro detect_ok_dismiss ok1)
    obtain r3 d3 where h: "read_height w d2 = (r3, d3)" by (cases "read_height w d2")
    with detect_ok_read_height[OF ok2, of w] have ok3: "detect_ok eo (calls d3)" by simp
    show ?thesis
    proof (cases r3)
      case (Inl e)
      with assms f g Inr h ok3 show ?thesis
        by (auto simp: scrape_twitter_def d2_def)
    next
      case (Inr ht)
      with assms f g \<open>r1 = Inr u\<close> h obtain st where
        sl: "search_loop n n w lm rl eo
               \<lparr>tweets_list = [], processed_tweets = {}, scroll_attempts = 0,
                previous_height = ht, browser = d3\<rparr> = Some st"
        and fin: "(case driver_quit w (browser st) of
                     (Inl e, d4) \<Rightarrow> Some (Inl e, calls d4)
                   | (Inr u, d4) \<Rightarrow> Some (Inr (tweets_list st), calls d4)) = Some (r, cs)"
        by (auto simp: scrape_twitter_def d2_def split: option.splits)
      have ok4: "detect_ok eo (calls (browser st))"
        using detect_ok_search_loop[OF _ sl] ok3 by simp
      from detect_ok_quit[OF ok4, of w] fin show ?thesis
        by (auto split: prod.splits sum.splits)
    qed
  qed
qed

section \<open>Lemmas: results and the language filter\<close>

lemma returned_replies_Some:
  "returned_replies res = Some replies \<Longrightarrow> \<exists>d. res = Some (Inr replies, d)"
  by (auto simp: returned_replies_def split: option.splits prod.splits sum.splits)

lemma detect_ok_iff:
  "detect_ok eo cs = (\<forall>t. Detect t \<in> set cs \<longrightarrow> eo \<and> t \<noteq> [])"
proof (induction cs)
  case Nil
  then show ?case by (simp add: detect_ok_def)
next
  case (Cons c cs)
  then show ?case by (cases c) (auto simp: detect_ok_def)
qed

lemma language_skip_empty: "language_skip w eo [] d = (False, d)"
  by (simp add: language_skip_def)

lemma is_english_text_fail_open:
  "fst (langdetect_detect w t d) = Inl e \<Longrightarrow> fst (is_english_text w t d)"
  by (cases "langdetect_detect w t d") (simp add: is_english_text_def)

lemma langdetect_detect_empty: "fst (langdetect_detect w [] d) = Inl LangDetectException"
  by (simp add: langdetect_detect_def command_def split: bool.splits)

lemma returned_rows_Some:
  "returned_rows res = Some rows \<Longrightarrow> \<exists>cs. res = Some (Inr rows, cs)"
  by (auto simp: returned_rows_def split: option.splits prod.splits sum.splits)

section \<open>Lemmas: pages of constant height\<close>

text \<open>
  When the document height never changes, every pass of either loop that does not
  raise counts a stall, so the thread loop ends within 10 passes and the search loop
  within 50, whichever calls raise.
\<close>

lemma read_height_still:
  "\<forall>k. scroll_height w k = h \<Longrightarrow> read_height w d = (Inr v, d') \<Longrightarrow> v = h"
  by (auto simp: read_height_def command_def split: bool.splits)

lemma replies_pass_still:
  assumes "\<forall>k. scroll_height w k = h"
    and "replies_pass w pid pn lm eo sa replies d = (None, sa', replies', d')"
  shows "sa' = sa + 1"
  using assms(2)
  by (auto simp: replies_pass_def split: prod.splits sum.splits if_splits
      dest!: read_height_still[OF assms(1)])

lemma replies_loop_still:
  "\<forall>k. scroll_height w k = h \<Longrightarrow> 10 - sa < n \<Longrightarrow>
   replies_loop n w pid pn lm eo sa replies d \<noteq> None"
proof (induction n arbitrary: sa replies d)
  case 0
  then show ?case by simp
next
  case (Suc n)
  show ?case
  proof (cases "sa < 10 \<and> int (length replies) < lm")
    case False
    then show ?thesis by auto
  next
    case True
    obtain e1 sa1 r1 d1 where rp: "replies_pass w pid pn lm eo sa replies d = (e1, sa1, r1, d1)"
      by (cases "replies_pass w pid pn lm eo sa replies d") auto
    show ?thesis
    proof (cases e1)
      case (Some x)
      with True rp show ?thesis by simp
    next
      case None
      with rp Suc.prems(1) have "sa1 = sa + 1" by (auto dest: replies_pass_still)
      with Suc.prems(2) True have "10 - sa1 < n" by linarith
      with Suc.prems(1) have "replies_loop n w pid pn lm eo sa1 r1 d1 \<noteq> None"
        by (rule Suc.IH)
      with True rp None show ?thesis by simp
    qed
  qed
qed

lemma get_twitter_replies_still:
  assumes "\<forall>k. scroll_height w k = h" and "10 < n"
  shows "get_twitter_replies n w d u pid pn lm eo \<noteq> None"
proof -
  obtain r1 d1 where ot: "open_thread w u d = (r1, d1)" by (cases "open_thread w u d")
  have "replies_loop n w pid pn lm eo 0 [] d1 \<noteq> None"
    using assms by (intro replies_loop_still[where h=h]) simp_all
  then obtain e rs d2 where "replies_loop n w pid pn lm eo 0 [] d1 = Some (e, rs, d2)"
    by auto
  with ot show ?thesis
    by (auto simp: get_twitter_replies_def split: prod.splits sum.splits option.splits)
qed

lemma process_tweet_still:
  assumes "\<forall>k. scroll_height w k = h" and "10 < n"
  shows "process_tweet n w rl eo tweet st \<noteq> None"
proof (cases "article_identity tweet")
  case None
  then show ?thesis by (simp add: process_tweet_def)
next
  case (Some ui)
  obtain url i where ui: "ui = (url, i)" by (cases ui)
  obtain skip d1 where ls: "language_skip w eo (get_text tweet) (browser st) = (skip, d1)"
    by (cases "language_skip w eo (get_text tweet) (browser st)")
  from get_twitter_replies_still[OF assms, of d1 url i "get_username tweet" rl eo]
  obtain r d2 where "get_twitter_replies n w d1 url i (get_username tweet) rl eo = Some (r, d2)"
    by auto
  with Some ui ls show ?thesis
    by (cases r; cases skip) (simp_all add: process_tweet_def Let_def)
qed

lemma tweet_for_still:
  assumes "\<forall>k. scroll_height w k = h" and "10 < n"
  shows "tweet_for n w lm rl eo els st \<noteq> None"
proof (induction els arbitrary: st)
  case Nil
  then show ?case by simp
next
  case (Cons tweet rest)
  then show ?case using process_tweet_still[OF assms, of rl eo tweet st]
    by (auto split: option.splits)
qed

lemma process_tweet_height:
  "process_tweet n w rl eo tweet st = Some st' \<Longrightarrow>
   previous_height st' = previous_height st \<and> scroll_attempts st' = scroll_attempts st"
  by (auto simp: process_tweet_def Let_def
      split: option.splits prod.splits sum.splits bool.splits if_splits)

lemma tweet_for_height:
  "tweet_for n w lm rl eo els st = Some st' \<Longrightarrow>
   previous_height st' = previous_height st \<and> scroll_attempts st' = scroll_attempts st"
proof (induction els arbitrary: st)
  case Nil
  then show ?case by simp
next
  case (Cons tweet rest)
  then show ?case
    by (auto split: option.splits if_splits dest!: process_tweet_height)
qed

lemma search_pass_still:
  assumes "\<forall>k. scroll_height w k = h" and "10 < n" and "previous_height st = h"
  shows "\<exists>st'. search_pass n w lm rl eo st = Some st'
               \<and> previous_height st' = h \<and> scroll_attempts st' = scroll_attempts st + 1"
proof -
  obtain r1 d1 where fa: "find_articles w (browser st) = (r1, d1)"
    by (cases "find_articles w (browser st)")
  show ?thesis
  proof (cases r1)
    case (Inl e)
    with fa assms(3) show ?thesis by (simp add: search_pass_def)
  next
    case (Inr els)
    from tweet_for_still[OF assms(1,2)] obtain st1 where
      tf: "tweet_for n w lm rl eo els (st\<lparr>browser := d1\<rparr>) = Some st1"
      by blast
    from tweet_for_height[OF tf] assms(3)
    have h1: "previous_height st1 = h" "scroll_attempts st1 = scroll_attempts st" by simp_all
    obtain r2 d2 where sc: "scroll_to_bottom w (browser st1) = (r2, d2)"
      by (cases "scroll_to_bottom w (browser st1)")
    obtain r3 d3 where rh: "read_height w d2 = (r3, d3)" by (cases "read_height w d2")
    show ?thesis
    proof (cases r2)
      case (Inl e)
      with fa Inr tf sc h1 show ?thesis by (simp add: search_pass_def)
    next
      case u: (Inr u)
      show ?thesis
      proof (cases r3)
        case (Inl e)
        with fa Inr tf sc u rh h1 show ?thesis by (simp add: search_pass_def)
      next
        case v: (Inr v)
        with rh assms(1) have "v = h" by (auto dest: read_height_still)
        with fa Inr tf sc u rh v h1 show ?thesis by (simp add: search_pass_def)
      qed
    qed
  qed
qed

lemma search_loop_still:
  assumes "\<forall>k. scroll_height w k = h" and "10 < n"
  shows "previous_height st = h \<Longrightarrow> 50 - scroll_attempts st < k \<Longrightarrow>
         search_loop k n w lm rl eo st \<noteq> None"
proof (induction k arbitrary: st)
  case 0
  then show ?case by simp
next
  case (Suc k)
  show ?case
  proof (cases "int (card (processed_tweets st)) < lm \<and> scroll_attempts st < 50")
    case False
    then show ?thesis by auto
  next
    case True
    from search_pass_still[OF assms Suc.prems(1), of lm rl eo] obtain st1 where
      sp: "search_pass n w lm rl eo st = Some st1"
      and ph: "previous_height st1 = h"
      and sa: "scroll_attempts st1 = scroll_attempts st + 1"
      by blast
    from sa Suc.prems(2) True have "50 - scroll_attempts st1 < k" by linarith
    with ph have "search_loop k n w lm rl eo st1 \<noteq> None" by (rule Suc.IH)
    with True sp show ?thesis by simp
  qed
qed

lemma still_page_crawl_terminates:
  assumes "\<forall>k. scroll_height w k = h" and "50 < n"
  shows "scrape_twitter n w topic sd ed lm rl hl eo \<noteq> None"
proof -
  have l: "\<And>d. search_loop n n w lm rl eo
               \<lparr>tweets_list = [], processed_tweets = {}, scroll_attempts = 0,
                previous_height = h, browser = d\<rparr> \<noteq> None"
    using assms by (intro search_loop_still[where h=h]) simp_all
  show ?thesis
  proof (cases "scrape_twitter n w topic sd ed lm rl hl eo")
    case (Some res)
    then show ?thesis by simp
  next
    case None
    then obtain v d where "search_loop n n w lm rl eo
               \<lparr>tweets_list = [], processed_tweets = {}, scroll_attempts = 0,
                previous_height = v, browser = d\<rparr> = None"
      and "\<exists>d0. read_height w d0 = (Inr v, d)"
      by (auto simp: scrape_twitter_def Let_def
          split: sum.splits prod.splits option.splits)
    with l read_height_still[OF assms(1)] show ?thesis by blast
  qed
qed

section \<open>Lemmas: the ids of the root records\<close>

text \<open>
  The search loop stores a root record only for an id outside \<open>processed_tweets\<close>,
  and the set holds exactly the ids of the root records stored so far.
\<close>

lemma root_ids_append: "root_ids (xs @ ys) = root_ids xs @ root_ids ys"
  by (simp add: root_ids_def)

lemma root_ids_replies:
  "\<forall>r\<in>set replies. is_reply_record pid pn r \<Longrightarrow> root_ids replies = []"
  by (induction replies) (auto simp: root_ids_def is_reply_record_def)

lemma root_ids_tweet_data: "root_ids (tweet_data i u ts t m # rows) = i # root_ids rows"
  by (simp add: root_ids_def tweet_data_def)

lemma process_tweet_root_ids:
  assumes "distinct (root_ids (tweets_list st))
           \<and> set (root_ids (tweets_list st)) = processed_tweets st"
    and "process_tweet n w rl eo tweet st = Some st'"
  shows "distinct (root_ids (tweets_list st'))
         \<and> set (root_ids (tweets_list st')) = processed_tweets st'"
  using assms(2)
proof (cases rule: process_tweet_cases)
  case passed
  with assms(1) show ?thesis by simp
next
  case (language d1)
  with assms(1) show ?thesis by simp
next
  case (stored url i d1 d2 replies)
  have "\<forall>r\<in>set replies. is_reply_record i (get_username tweet) r"
    using stored(4) get_twitter_replies_shape by fastforce
  then have "root_ids replies = []" by (rule root_ids_replies)
  with stored(6) have "root_ids (tweets_list st') = root_ids (tweets_list st) @ [i]"
    by (simp add: root_ids_append root_ids_tweet_data)
  with assms(1) stored(2,7) show ?thesis by auto
qed

lemma tweet_for_root_ids:
  "distinct (root_ids (tweets_list st)) \<and> set (root_ids (tweets_list st)) = processed_tweets st
   \<Longrightarrow> tweet_for n w lm rl eo els st = Some st'
   \<Longrightarrow> distinct (root_ids (tweets_list st'))
       \<and> set (root_ids (tweets_list st')) = processed_tweets st'"
proof (induction els arbitrary: st)
  case Nil
  then show ?case by simp
next
  case (Cons tweet rest)
  show ?case
  proof (cases "lm \<le> int (card (processed_tweets st))")
    case True
    with Cons.prems show ?thesis by simp
  next
    case False
    with Cons.prems(2) obtain st1 where
      pt: "process_tweet n w rl eo tweet st = Some st1"
      and tf: "tweet_for n w lm rl eo rest st1 = Some st'"
      by (auto split: option.splits)
    from process_tweet_root_ids[OF Cons.prems(1) pt] tf show ?thesis by (rule Cons.IH)
  qed
qed

lemma search_pass_root_ids:
  "distinct (root_ids (tweets_list st)) \<and> set (root_ids (tweets_list st)) = processed_tweets st
   \<Longrightarrow> search_pass n w lm rl eo st = Some st'
   \<Longrightarrow> distinct (root_ids (tweets_list st'))
       \<and> set (root_ids (tweets_list st')) = processed_tweets st'"
  by (auto simp: search_pass_def split: prod.splits sum.splits option.splits
      dest!: tweet_for_root_ids[rotated])

lemma search_loop_root_ids:
  "distinct (root_ids (tweets_list st)) \<and> set (root_ids (tweets_list st)) = processed_tweets st
   \<Longrightarrow> search_loop k n w lm rl eo st = Some st'
   \<Longrightarrow> distinct (root_ids (tweets_list st'))
       \<and> set (root_ids (tweets_list st')) = processed_tweets st'"
proof (induction k arbitrary: st)
  case 0
  then show ?case by simp
next
  case (Suc k)
  show ?case
  proof (cases "int (card (processed_tweets st)) < lm \<and> scroll_attempts st < 50")
    case False
    with Suc.prems show ?thesis by auto
  next
    case True
    with Suc.prems(2) obtain st1 where
      sp: "search_pass n w lm rl eo st = Some st1"
      and sl: "search_loop k n w lm rl eo st1 = Some st'"
      by (auto split: option.splits)
    from search_pass_root_ids[OF Suc.prems(1) sp] sl show ?thesis by (rule Suc.IH)
  qed
qed

lemma root_ids_distinct:
  assumes "scrape_twitter n w topic sd ed lm rl hl eo = Some (Inr rows, cs)"
  shows "distinct (root_ids rows)"
proof -
  have i0: "\<And>h d. distinct (root_ids (tweets_list
               \<lparr>tweets_list = [], processed_tweets = {}, scroll_attempts = 0,
                previous_height = h, browser = d\<rparr>))
            \<and> set (root_ids (tweets_list
               \<lparr>tweets_list = [], processed_tweets = {}, scroll_attempts = 0,
                previous_height = h, browser = d\<rparr>))
              = processed_tweets \<lparr>tweets_list = [], processed_tweets = {}, scroll_attempts = 0,
                previous_height = h, browser = d\<rparr>"
    by (simp add: root_ids_def)
  from assms show ?thesis
    by (auto simp: scrape_twitter_def Let_def root_ids_def[of "[]"]
        split: sum.splits prod.splits option.splits
        dest!: search_loop_root_ids[OF i0])
qed

section \<open>Lemmas: the windows when no call raises\<close>

text \<open>
  When no call raises, the thread crawler returns its list with the thread window
  closed and the focus back on the window of the caller.
\<close>

lemma same_windows_refl: "same_windows d d"
  by (simp add: same_windows_def)

lemma same_windows_trans: "same_windows d d1 \<Longrightarrow> same_windows d1 d2 \<Longrightarrow> same_windows d d2"
  by (simp add: same_windows_def)

lemma quiet_find_articles:
  "\<forall>k. \<not> raises w k \<Longrightarrow> \<exists>els d'. find_articles w d = (Inr els, d') \<and> same_windows d d'"
  by (simp add: find_articles_def command_def same_windows_def)

lemma quiet_scroll:
  "\<forall>k. \<not> raises w k \<Longrightarrow> \<exists>d'. scroll_to_bottom w d = (Inr (), d') \<and> same_windows d d'"
  by (simp add: scroll_to_bottom_def command_def same_windows_def)

lemma quiet_read_height:
  "\<forall>k. \<not> raises w k \<Longrightarrow> \<exists>v d'. read_height w d = (Inr v, d') \<and> same_windows d d'"
  by (simp add: read_height_def command_def same_windows_def)

lemma language_skip_windows: "same_windows d (snd (language_skip w eo t d))"
  by (auto simp: language_skip_def is_english_text_def langdetect_detect_def command_def
      same_windows_def split: prod.splits sum.splits bool.splits)

lemma process_reply_windows: "same_windows d (snd (process_reply w pid pn eo reply replies d))"
  using language_skip_windows[of d w eo "get_text reply"]
  by (auto simp: process_reply_def Let_def same_windows_refl
      split: option.splits prod.splits bool.splits)

lemma reply_for_windows: "same_windows d (snd (reply_for w pid pn lm eo els replies d))"
proof (induction els arbitrary: replies d)
  case Nil
  then show ?case by (simp add: same_windows_refl)
next
  case (Cons reply rest)
  obtain r1 d1 where pr: "process_reply w pid pn eo reply replies d = (r1, d1)"
    by (cases "process_reply w pid pn eo reply replies d")
  with process_reply_windows[of d w pid pn eo reply replies]
  have "same_windows d d1" by simp
  with Cons.IH[of d1 r1] pr show ?case
    by (auto simp: same_windows_refl intro: same_windows_trans)
qed

lemma quiet_replies_pass:
  assumes "\<forall>k. \<not> raises w k"
  shows "\<exists>sa' replies' d'. replies_pass w pid pn lm eo sa replies d = (None, sa', replies', d')
                           \<and> same_windows d d'"
proof -
  from quiet_find_articles[OF assms, of d] obtain els d1 where
    fa: "find_articles w d = (Inr els, d1)" and w1: "same_windows d d1" by blast
  obtain r2 d2 where rf: "reply_for w pid pn lm eo (drop 1 els) replies d1 = (r2, d2)"
    by (cases "reply_for w pid pn lm eo (drop 1 els) replies d1")
  with reply_for_windows[of d1 w pid pn lm eo "drop 1 els" replies]
  have w2: "same_windows d1 d2" by simp
  from quiet_scroll[OF assms, of d2] obtain d3 where
    sc: "scroll_to_bottom w d2 = (Inr (), d3)" and w3: "same_windows d2 d3" by blast
  from quiet_read_height[OF assms, of d3] obtain v4 d4 where
    h1: "read_height w d3 = (Inr v4, d4)" and w4: "same_windows d3 d4" by blast
  from quiet_read_height[OF assms, of d4] obtain v5 d5 where
    h2: "read_height w d4 = (Inr v5, d5)" and w5: "same_windows d4 d5" by blast
  from w1 w2 w3 w4 w5 have "same_windows d d5" by (blast intro: same_windows_trans)
  with fa rf sc h1 h2 show ?thesis by (simp add: replies_pass_def)
qed

lemma quiet_replies_loop:
  assumes "\<forall>k. \<not> raises w k"
  shows "replies_loop n w pid pn lm eo sa replies d = Some (e, replies', d')
         \<Longrightarrow> e = None \<and> same_windows d d'"
proof (induction n arbitrary: sa replies d)
  case 0
  then show ?case by simp
next
  case (Suc n)
  show ?case
  proof (cases "sa < 10 \<and> int (length replies) < lm")
    case False
    with Suc.prems show ?thesis by (auto simp: same_windows_refl)
  next
    case True
    from quiet_replies_pass[OF assms, of pid pn lm eo sa replies d] obtain sa1 r1 d1 where
      rp: "replies_pass w pid pn lm eo sa replies d = (None, sa1, r1, d1)"
      and w1: "same_windows d d1" by blast
    with Suc.prems True have "replies_loop n w pid pn lm eo sa1 r1 d1 = Some (e, replies', d')"
      by simp
    then have "e = None \<and> same_windows d1 d'" by (rule Suc.IH)
    with w1 show ?thesis by (blast intro: same_windows_trans)
  qed
qed

lemma quiet_open_thread:
  assumes "\<forall>k. \<not> raises w k"
  shows "\<exists>d'. open_thread w u d = (Inr (), d')
              \<and> window_handles d' = window_handles d @ [next_handle d]
              \<and> current_window d' = next_handle d"
  using assms
  by (simp add: open_thread_def then_do_def window_open_def get_window_handles_def
      switch_to_window_def command_def)

lemma quiet_close_thread:
  assumes "\<forall>k. \<not> raises w k" and "window_handles d = [h, t]" and "current_window d = t"
    and "t \<noteq> h"
  shows "\<exists>d'. close_thread w d = (Inr (), d') \<and> window_handles d' = [h]
              \<and> current_window d' = h"
  using assms
  by (simp add: close_thread_def then_do_def close_window_def get_window_handles_def
      switch_to_window_def command_def)

lemma quiet_thread_restores_focus:
  assumes quiet: "\<forall>k. \<not> raises w k"
    and one: "window_handles d = [h]" "current_window d = h" "next_handle d \<noteq> h"
    and run: "get_twitter_replies n w d u pid pn lm eo = Some (res, d')"
  shows "(\<exists>replies. res = Inr replies) \<and> window_handles d' = [h] \<and> current_window d' = h"
proof -
  from quiet_open_thread[OF quiet, of u d] one obtain d1 where
    ot: "open_thread w u d = (Inr (), d1)"
    and o1: "window_handles d1 = [h, next_handle d]" "current_window d1 = next_handle d"
    by auto
  from run ot obtain e rs d2 where
    rl: "replies_loop n w pid pn lm eo 0 [] d1 = Some (e, rs, d2)"
    by (auto simp: get_twitter_replies_def split: option.splits)
  from quiet_replies_loop[OF quiet rl] have e: "e = None" and w2: "same_windows d1 d2"
    by simp_all
  from w2 o1 have o2: "window_handles d2 = [h, next_handle d]" "current_window d2 = next_handle d"
    by (simp_all add: same_windows_def)
  from quiet_close_thread[OF quiet o2 one(3)] obtain d3 where
    ct: "close_thread w d2 = (Inr (), d3)"
    and o3: "window_handles d3 = [h]" "current_window d3 = h"
    by blast
  from run ot rl e ct have "res = Inr rs" "d' = d3"
    by (simp_all add: get_twitter_replies_def)
  with o3 show ?thesis by simp
qed

section \<open>Count texts on both approaches\<close>

text \<open>
  The like count \<^verbatim>\<open>get_metrics\<close> returns for an article whose count text is found
  by the grouped query of the first approach, and for one whose count text is only
  found by the spans of the second approach.
\<close>

lemma count_examples_first_approach:
  "map (\<lambda>t. metrics_get (get_metrics (group_article t)) ''like'')
     [''1.2K'', ''3M'', ''47'', [], ''garbage'']
   = [1200, 3000000, 47, 0, 0]"
  by code_simp

lemma count_examples_second_approach:
  "map (\<lambda>t. metrics_get (get_metrics (span_article t)) ''like'')
     [''1.2K'', ''3M'', ''47'', [], ''garbage'']
   = [1200, 3000000, 47, 0, 0]"
  by code_simp

section \<open>Properties\<close>

text \<open>
  C1 (no two records of the returned sequence share an id).  The search loop keeps
  the set \<open>processed_tweets\<close>; the thread crawler keeps none and reads the whole
  thread page again on every pass.  On a thread page that shows the post and one
  reply and never changes, with a reply limit of 2, the reply is stored on both
  passes: the run returns the ids 100, 101, 101.
\<close>

theorem C1_replies_repeat:
  "map_option (map post_id)
     (returned_rows
        (scrape_twitter 3 (still_world [root_article, reply_article] ''en'')
           ''cats'' ''2024-01-01'' ''2024-01-31'' 1 2 True False))
   = Some [''100'', ''101'', ''101'']"
  by code_simp

text \<open>
  C2 (the stall counter counts a scroll exactly when the height after it equals the
  height before it).  The thread loop compares two reads that both follow the scroll
  (lines 398-399).  On a thread page that shows the post alone and grows by 1000 with
  every scroll the counter still goes up on every pass, and the loop ends after ten
  scrolls: the calls of the run are listed, and for each pass \<open>k\<close> the height at
  the scroll and at the two reads after it.
\<close>

theorem C2_thread_stall_counter_ignores_growth:
  "map_option (\<lambda>(r, d). (r, calls d))
     (get_twitter_replies 11 growing_world new_driver
        ''https://twitter.com/alice/status/100'' ''100'' ''alice'' 20 False)
   = Some (Inr [],
           [WindowOpen ''https://twitter.com/alice/status/100'', WindowHandles, SwitchTo 1]
           @ concat (replicate 10 [FindArticles, ScrollToBottom, ReadHeight, ReadHeight])
           @ [CloseWindow, WindowHandles, SwitchTo 0])
   \<and> list_all (\<lambda>k. scroll_height growing_world (4 + 4 * k) = 1000 * (int k + 1)
                  \<and> scroll_height growing_world (5 + 4 * k) = 1000 * (int k + 2)
                  \<and> scroll_height growing_world (6 + 4 * k) = 1000 * (int k + 2))
        [0..<10]"
  by code_simp

text \<open>
  C3 (a K or k suffix multiplies by 1000 on both parsing paths).  The guard of
  line 101 asks for a digit string or an upper-case K or M, so the second approach
  leaves the count text \<^verbatim>\<open>1.2k\<close> at 0, where it reads \<^verbatim>\<open>1.2K\<close> as 1200 and the
  first approach reads \<^verbatim>\<open>1.2k\<close> as 1200.
\<close>

theorem C3_lowercase_suffix_lost_by_second_approach:
  "get_metrics (span_article ''1.2k'') = [(''reply'', 0), (''retweet'', 0), (''like'', 0)]
   \<and> get_metrics (span_article ''1.2K'') = [(''reply'', 0), (''retweet'', 0), (''like'', 1200)]
   \<and> get_metrics (group_article ''1.2k'') = [(''reply'', 0), (''retweet'', 0), (''like'', 1200)]"
  by code_simp

text \<open>
  C4 (on every return path the thread window is closed and the focus is back on the
  caller's window).  When \<^verbatim>\<open>window.open\<close> succeeds and the switch to the new
  window raises, the focus is still on the caller's window 0; the handler sees two
  handles, closes the window that has the focus and switches to the first handle
  left.  The call returns the empty list with window 0 closed and the focus on the
  thread window 1.
\<close>

theorem C4_failed_switch_closes_callers_window:
  "window_handles new_driver = [0] \<and> current_window new_driver = 0
   \<and> map_option (\<lambda>(r, d). (r, calls d, window_handles d, current_window d))
        (get_twitter_replies 1 third_call_fails_world new_driver
           ''https://twitter.com/alice/status/100'' ''100'' ''alice'' 20 False)
      = Some (Inr [],
              [WindowOpen ''https://twitter.com/alice/status/100'', WindowHandles,
               SwitchTo 1, WindowHandles, CloseWindow, WindowHandles, SwitchTo 1],
              [1], 1)"
  by code_simp



text \<open>
  C6.  Whatever the page shows, whichever calls raise and however many passes the
  loop makes, the list the thread crawler returns has at most \<open>replies_limit\<close>
  records (none when the limit is not positive).
\<close>

theorem C6_at_most_replies_limit:
  assumes "get_twitter_replies n w d tweet_url parent_id parent_username replies_limit english_only
           = Some (Inr replies, d')"
  shows "length replies \<le> nat replies_limit"
proof (cases "open_thread w tweet_url d")
  case (Pair r d1)
  show ?thesis
  proof (cases r)
    case (Inl e)
    with Pair assms have "replies_handler w [] d1 = (Inr replies, d')"
      by (simp add: get_twitter_replies_def)
    then have "replies = []" by (rule replies_handler_returns)
    then show ?thesis by simp
  next
    case (Inr u)
    show ?thesis
    proof (cases "replies_loop n w parent_id parent_username replies_limit english_only 0 [] d1")
      case None
      with Pair Inr assms show ?thesis by (simp add: get_twitter_replies_def)
    next
      case (Some res)
      obtain e rs d2 where res: "res = (e, rs, d2)" by (cases res) auto
      have b: "length rs \<le> nat replies_limit"
        using replies_loop_bound[of "[]" replies_limit n w parent_id parent_username english_only 0 d1 e rs d2]
          Some res by simp
      from Pair Inr Some res assms have "replies = rs"
        by (auto simp: get_twitter_replies_def split: option.splits prod.splits sum.splits
            dest: replies_handler_returns)
      with b show ?thesis by simp
    qed
  qed
qed

theorem C6_witness:
  "\<exists>replies d'.
     get_twitter_replies 3 (still_world [root_article, reply_article] ''en'') new_driver
       ''https://twitter.com/alice/status/100'' ''100'' ''alice'' 2 False
     = Some (Inr replies, d')
     \<and> length replies = 2 \<and> length replies \<le> nat 2"
proof -
  have "map_option length
          (returned_replies
             (get_twitter_replies 3 (still_world [root_article, reply_article] ''en'') new_driver
                ''https://twitter.com/alice/status/100'' ''100'' ''alice'' 2 False)) = Some 2"
    by code_simp
  then obtain replies d' where
    t: "get_twitter_replies 3 (still_world [root_article, reply_article] ''en'') new_driver
          ''https://twitter.com/alice/status/100'' ''100'' ''alice'' 2 False
        = Some (Inr replies, d')"
    and tl: "length replies = 2"
    by (auto dest: returned_replies_Some)
  from C6_at_most_replies_limit[OF t] have "length replies \<le> nat 2" .
  with t tl show ?thesis by blast
qed




text \<open>
  C8.  \<^verbatim>\<open>is_english_text\<close> returns true whenever the detection raises, and the
  detection raises on the empty text.  In a run of the search crawler, and in a call
  of the thread crawler, the detector is only called on a non-empty text and only
  when \<open>english_only\<close> is set.  The language condition never holds for an empty
  text: an article with an id and an empty text is stored by the thread crawler, and
  by the search crawler unless it is a duplicate or marked as a reply.
\<close>

theorem C8_language_filter_fails_open:
  "(fst (langdetect_detect w t d) = Inl e \<longrightarrow> fst (is_english_text w t d))
   \<and> fst (langdetect_detect w [] d) = Inl LangDetectException
   \<and> (scrape_twitter n w topic start_date end_date limit replies_limit headless english_only
        = Some (res, cs)
      \<longrightarrow> (\<forall>x. Detect x \<in> set cs \<longrightarrow> english_only \<and> x \<noteq> []))
   \<and> ((\<forall>x. Detect x \<in> set (calls d) \<longrightarrow> english_only \<and> x \<noteq> [])
       \<and> get_twitter_replies n w d tweet_url parent_id parent_username replies_limit
            english_only = Some (res', d')
      \<longrightarrow> (\<forall>x. Detect x \<in> set (calls d') \<longrightarrow> english_only \<and> x \<noteq> []))
   \<and> language_skip w english_only [] d = (False, d)
   \<and> (article_identity reply = Some (reply_url, reply_id) \<and> get_text reply = []
      \<longrightarrow> process_reply w parent_id parent_username english_only reply replies d
          = (replies @ [reply_data reply_id (get_username reply) parent_id parent_username
                          (get_timestamp w d reply) [] (get_metrics reply)], d))
   \<and> (article_identity tweet = Some (url, tweet_id) \<and> get_text tweet = []
       \<and> tweet_id \<notin> processed_tweets st \<and> \<not> is_reply tweet
       \<and> process_tweet n w replies_limit english_only tweet st = Some st'
      \<longrightarrow> tweet_id \<in> processed_tweets st'
          \<and> tweet_data tweet_id (get_username tweet) (get_timestamp w (browser st) tweet) []
               (get_metrics tweet) \<in> set (tweets_list st'))"
proof (intro conjI impI)
  assume "fst (langdetect_detect w t d) = Inl e"
  then show "fst (is_english_text w t d)" by (rule is_english_text_fail_open)
next
  show "fst (langdetect_detect w [] d) = Inl LangDetectException"
    by (rule langdetect_detect_empty)
next
  assume "scrape_twitter n w topic start_date end_date limit replies_limit headless english_only
        = Some (res, cs)"
  then have "detect_ok english_only cs" by (rule detect_ok_scrape_twitter)
  then show "\<forall>x. Detect x \<in> set cs \<longrightarrow> english_only \<and> x \<noteq> []"
    by (simp add: detect_ok_iff)
next
  assume a: "(\<forall>x. Detect x \<in> set (calls d) \<longrightarrow> english_only \<and> x \<noteq> [])
       \<and> get_twitter_replies n w d tweet_url parent_id parent_username replies_limit
            english_only = Some (res', d')"
  then have "detect_ok english_only (calls d)" by (simp add: detect_ok_iff)
  with a have "detect_ok english_only (calls d')"
    by (blast intro: detect_ok_get_twitter_replies)
  then show "\<forall>x. Detect x \<in> set (calls d') \<longrightarrow> english_only \<and> x \<noteq> []"
    by (simp add: detect_ok_iff)
next
  show "language_skip w english_only [] d = (False, d)" by (rule language_skip_empty)
next
  assume "article_identity reply = Some (reply_url, reply_id) \<and> get_text reply = []"
  then show "process_reply w parent_id parent_username english_only reply replies d
          = (replies @ [reply_data reply_id (get_username reply) parent_id parent_username
                          (get_timestamp w d reply) [] (get_metrics reply)], d)"
    by (simp add: process_reply_def language_skip_empty)
next
  assume a: "article_identity tweet = Some (url, tweet_id) \<and> get_text tweet = []
       \<and> tweet_id \<notin> processed_tweets st \<and> \<not> is_reply tweet
       \<and> process_tweet n w replies_limit english_only tweet st = Some st'"
  then have pt: "process_tweet n w replies_limit english_only tweet st = Some st'" by simp
  from pt show "tweet_id \<in> processed_tweets st'"
  proof (cases rule: process_tweet_cases)
    case passed
    with a show ?thesis by auto
  next
    case (language d1)
    with a show ?thesis by (simp add: language_skip_empty)
  next
    case (stored url' i d1 d2 rs)
    with a show ?thesis by simp
  qed
  from pt show "tweet_data tweet_id (get_username tweet) (get_timestamp w (browser st) tweet) []
               (get_metrics tweet) \<in> set (tweets_list st')"
  proof (cases rule: process_tweet_cases)
    case passed
    with a show ?thesis by auto
  next
    case (language d1)
    with a show ?thesis by (simp add: language_skip_empty)
  next
    case (stored url' i d1 d2 rs)
    with a show ?thesis by (simp add: language_skip_empty)
  qed
qed

theorem C8_witness:
  "fst (langdetect_detect (still_world [] ''fr'') [] new_driver) = Inl LangDetectException
   \<and> fst (is_english_text (still_world [] ''fr'') [] new_driver)
   \<and> (\<exists>res cs.
        scrape_twitter 3 (still_world [root_article, reply_article] ''en'')
          ''cats'' ''2024-01-01'' ''2024-01-31'' 1 2 True True = Some (res, cs)
        \<and> Detect ''hello'' \<in> set cs
        \<and> (\<forall>x. Detect x \<in> set cs \<longrightarrow> True \<and> x \<noteq> []))
   \<and> (\<exists>res d'.
        get_twitter_replies 3 (still_world [root_article, reply_article] ''en'') new_driver
          ''https://twitter.com/alice/status/100'' ''100'' ''alice'' 2 True = Some (res, d')
        \<and> Detect ''hi'' \<in> set (calls d')
        \<and> (\<forall>x. Detect x \<in> set (calls d') \<longrightarrow> True \<and> x \<noteq> []))
   \<and> article_identity textless_article = Some (''https://twitter.com/carol/status/102'', ''102'')
   \<and> get_text textless_article = []
   \<and> process_reply (still_world [] ''fr'') ''100'' ''alice'' True textless_article [] new_driver
      = ([reply_data ''102'' (get_username textless_article) ''100'' ''alice''
            (get_timestamp (still_world [] ''fr'') new_driver textless_article) []
            (get_metrics textless_article)], new_driver)
   \<and> (\<exists>st'.
        process_tweet 1 (still_world [] ''fr'') 2 True textless_article
          \<lparr>tweets_list = [], processed_tweets = {}, scroll_attempts = 0, previous_height = 1000,
           browser = new_driver\<rparr> = Some st'
        \<and> ''102'' \<in> processed_tweets st'
        \<and> tweet_data ''102'' (get_username textless_article)
             (get_timestamp (still_world [] ''fr'') new_driver textless_article) []
             (get_metrics textless_article) \<in> set (tweets_list st'))"
proof -
  define fr where "fr = still_world [] ''fr''"
  define en where "en = still_world [root_article, reply_article] ''en''"
  define st0 where "st0 = \<lparr>tweets_list = [], processed_tweets = {}, scroll_attempts = 0,
                            previous_height = 1000, browser = new_driver\<rparr>"
  note c = C8_language_filter_fails_open
  note c1 = c[THEN conjunct1, THEN mp]
  note c2 = c[THEN conjunct2, THEN conjunct1]
  note c3 = c[THEN conjunct2, THEN conjunct2, THEN conjunct1, THEN mp]
  note c4 = c[THEN conjunct2, THEN conjunct2, THEN conjunct2, THEN conjunct1, THEN mp]
  note c6 = c[THEN conjunct2, THEN conjunct2, THEN conjunct2, THEN conjunct2, THEN conjunct2,
      THEN conjunct1, THEN mp]
  note c7 = c[THEN conjunct2, THEN conjunct2, THEN conjunct2, THEN conjunct2, THEN conjunct2,
      THEN conjunct2, THEN mp]
  have e1: "fst (langdetect_detect fr [] new_driver) = Inl LangDetectException"
    by (rule c2)
  then have e2: "fst (is_english_text fr [] new_driver)" by (rule c1)
  have "map_option (\<lambda>(res, cs). Detect ''hello'' \<in> set cs)
          (scrape_twitter 3 (still_world [root_article, reply_article] ''en'')
             ''cats'' ''2024-01-01'' ''2024-01-31'' 1 2 True True) = Some True"
    by code_simp
  then obtain res cs where
    s: "scrape_twitter 3 en ''cats'' ''2024-01-01'' ''2024-01-31'' 1 2 True True = Some (res, cs)"
    and sd: "Detect ''hello'' \<in> set cs"
    unfolding en_def by auto
  from s have s': "\<forall>x. Detect x \<in> set cs \<longrightarrow> True \<and> x \<noteq> []" by (rule c3)
  have "map_option (\<lambda>(res, d). Detect ''hi'' \<in> set (calls d))
          (get_twitter_replies 3 (still_world [root_article, reply_article] ''en'') new_driver
             ''https://twitter.com/alice/status/100'' ''100'' ''alice'' 2 True) = Some True"
    by code_simp
  then obtain res' d' where
    t: "get_twitter_replies 3 en new_driver
          ''https://twitter.com/alice/status/100'' ''100'' ''alice'' 2 True = Some (res', d')"
    and td: "Detect ''hi'' \<in> set (calls d')"
    unfolding en_def by auto
  have n0: "\<forall>x. Detect x \<in> set (calls new_driver) \<longrightarrow> True \<and> x \<noteq> []"
    by (simp add: new_driver_def)
  have t': "\<forall>x. Detect x \<in> set (calls d') \<longrightarrow> True \<and> x \<noteq> []"
    by (rule c4[OF conjI[OF n0 t]])
  have i: "article_identity textless_article
           = Some (''https://twitter.com/carol/status/102'', ''102'')"
    by code_simp
  have g: "get_text textless_article = []" by code_simp
  have r: "process_reply fr ''100'' ''alice'' True textless_article [] new_driver
      = ([] @ [reply_data ''102'' (get_username textless_article) ''100'' ''alice''
            (get_timestamp fr new_driver textless_article) []
            (get_metrics textless_article)], new_driver)"
    by (rule c6[OF conjI[OF i g]])
  have "map_option (\<lambda>st. True)
          (process_tweet 1 (still_world [] ''fr'') 2 True textless_article
             \<lparr>tweets_list = [], processed_tweets = {}, scroll_attempts = 0,
              previous_height = 1000, browser = new_driver\<rparr>) = Some True"
    by code_simp
  then obtain st' where p: "process_tweet 1 fr 2 True textless_article st0 = Some st'"
    unfolding fr_def st0_def by auto
  have f: "''102'' \<notin> processed_tweets st0" by (simp add: st0_def)
  have nr: "\<not> is_reply textless_article" by code_simp
  have q: "''102'' \<in> processed_tweets st'
        \<and> tweet_data ''102'' (get_username textless_article)
             (get_timestamp fr (browser st0) textless_article) []
             (get_metrics textless_article) \<in> set (tweets_list st')"
    by (rule c7[OF conjI[OF i conjI[OF g conjI[OF f conjI[OF nr p]]]]])
  then have q': "''102'' \<in> processed_tweets st'
        \<and> tweet_data ''102'' (get_username textless_article)
             (get_timestamp fr new_driver textless_article) []
             (get_metrics textless_article) \<in> set (tweets_list st')"
    by (simp add: st0_def)
  from r have r': "process_reply fr ''100'' ''alice'' True textless_article [] new_driver
      = ([reply_data ''102'' (get_username textless_article) ''100'' ''alice''
            (get_timestamp fr new_driver textless_article) []
            (get_metrics textless_article)], new_driver)"
    by simp
  from s sd s' have A: "\<exists>res cs.
        scrape_twitter 3 en ''cats'' ''2024-01-01'' ''2024-01-31'' 1 2 True True = Some (res, cs)
        \<and> Detect ''hello'' \<in> set cs
        \<and> (\<forall>x. Detect x \<in> set cs \<longrightarrow> True \<and> x \<noteq> [])"
    by blast
  from t td t' have B: "\<exists>res d'.
        get_twitter_replies 3 en new_driver
          ''https://twitter.com/alice/status/100'' ''100'' ''alice'' 2 True = Some (res, d')
        \<and> Detect ''hi'' \<in> set (calls d')
        \<and> (\<forall>x. Detect x \<in> set (calls d') \<longrightarrow> True \<and> x \<noteq> [])"
    by blast
  from p q' have C: "\<exists>st'. process_tweet 1 fr 2 True textless_article st0 = Some st'
        \<and> ''102'' \<in> processed_tweets st'
        \<and> tweet_data ''102'' (get_username textless_article)
             (get_timestamp fr new_driver textless_article) []
             (get_metrics textless_article) \<in> set (tweets_list st')"
    by blast
  from e1 e2 A B i g r' C show ?thesis
    unfolding fr_def en_def st0_def by (intro conjI)
qed

text \<open>
  C9.  \<^verbatim>\<open>main\<close> does not depend on the parsed \<^verbatim>\<open>--english_only\<close> flag: it calls
  \<^verbatim>\<open>scrape_twitter\<close> with \<open>english_only = True\<close>.
\<close>

theorem C9_english_only_flag_ignored:
  "main n w (a\<lparr>args_english_only := b\<rparr>) = main n w a
   \<and> main n w a =
       (case scrape_twitter n w (args_topic a) (args_start_date a) (args_end_date a)
               (args_limit (update_limit a)) (args_replies_limit a) (args_headless a) True of
          None \<Rightarrow> None
        | Some (Inl e, cs) \<Rightarrow> Some ([], args_output a, cs)
        | Some (Inr rows, cs) \<Rightarrow> Some (rows, args_output a, cs))"
  by (simp add: main_def update_limit_def Let_def split: option.splits prod.splits sum.splits)

text \<open>
  C10.  \<^verbatim>\<open>main\<close> is the call of \<^verbatim>\<open>scrape_twitter\<close> with the post limit 120
  when the parsed limit is exactly 50 and with the parsed limit itself otherwise (the
  default 120 included); every other argument is handed over as parsed.  So a limit
  of 50 is replaced by 120 before the crawl, \<^verbatim>\<open>main\<close> does with 50 what it does
  with 120, and with every other limit the arguments are used unchanged.
\<close>

theorem C10_limit_50_becomes_120:
  "args_limit (update_limit (a\<lparr>args_limit := 50\<rparr>)) = 120
   \<and> (\<forall>k. k \<noteq> 50 \<longrightarrow> update_limit (a\<lparr>args_limit := k\<rparr>) = a\<lparr>args_limit := k\<rparr>)
   \<and> main n w (a\<lparr>args_limit := 50\<rparr>) = main n w (a\<lparr>args_limit := 120\<rparr>)
   \<and> main n w a =
       (case scrape_twitter n w (args_topic a) (args_start_date a) (args_end_date a)
               (if args_limit a = 50 then 120 else args_limit a)
               (args_replies_limit a) (args_headless a) True of
          None \<Rightarrow> None
        | Some (Inl e, cs) \<Rightarrow> Some ([], args_output a, cs)
        | Some (Inr rows, cs) \<Rightarrow> Some (rows, args_output a, cs))"
  by (simp add: main_def update_limit_def Let_def split: option.splits prod.splits sum.splits)

theorem C10_witness:
  "(120::int) \<noteq> 50
   \<and> update_limit (example_args\<lparr>args_limit := 120\<rparr>) = example_args\<lparr>args_limit := 120\<rparr>
   \<and> args_limit (update_limit (example_args\<lparr>args_limit := 50\<rparr>)) = 120
   \<and> map_option (\<lambda>(rows, file, cs). (length rows, file))
        (main 3 (still_world [root_article, reply_article] ''en'') example_args)
      = Some (3, ''twitter_data.csv'')
   \<and> map_option (\<lambda>(rows, file, cs). (length rows, file))
        (main 3 (still_world [root_article, reply_article] ''en'')
           (example_args\<lparr>args_limit := 0\<rparr>))
      = Some (0, ''twitter_data.csv'')"
proof -
  define w where "w = still_world [root_article, reply_article] ''en''"
  have h: "(120::int) \<noteq> 50" by simp
  note c = C10_limit_50_becomes_120
  from c[of example_args]
  have u: "\<forall>k. k \<noteq> 50 \<longrightarrow>
         update_limit (example_args\<lparr>args_limit := k\<rparr>) = example_args\<lparr>args_limit := k\<rparr>"
    and l: "args_limit (update_limit (example_args\<lparr>args_limit := 50\<rparr>)) = 120"
    by blast+
  from u h have u': "update_limit (example_args\<lparr>args_limit := 120\<rparr>)
                     = example_args\<lparr>args_limit := 120\<rparr>"
    by blast
  have s1: "map_option length
              (returned_rows (scrape_twitter 3 (still_world [root_article, reply_article] ''en'')
                 ''cats'' ''2024-01-01'' ''2024-01-31'' 1 2 True True)) = Some 3"
    by code_simp
  have s0: "map_option length
              (returned_rows (scrape_twitter 3 (still_world [root_article, reply_article] ''en'')
                 ''cats'' ''2024-01-01'' ''2024-01-31'' 0 2 True True)) = Some 0"
    by code_simp
  have m1: "main 3 w example_args =
       (case scrape_twitter 3 w ''cats'' ''2024-01-01'' ''2024-01-31'' 1 2 True True of
          None \<Rightarrow> None
        | Some (Inl e, cs) \<Rightarrow> Some ([], args_output example_args, cs)
        | Some (Inr rows, cs) \<Rightarrow> Some (rows, args_output example_args, cs))"
    using c[of example_args 3 w, THEN conjunct2, THEN conjunct2, THEN conjunct2]
    by (simp add: example_args_def)
  have m0: "main 3 w (example_args\<lparr>args_limit := 0\<rparr>) =
       (case scrape_twitter 3 w ''cats'' ''2024-01-01'' ''2024-01-31'' 0 2 True True of
          None \<Rightarrow> None
        | Some (Inl e, cs) \<Rightarrow> Some ([], args_output (example_args\<lparr>args_limit := 0\<rparr>), cs)
        | Some (Inr rows, cs) \<Rightarrow>
            Some (rows, args_output (example_args\<lparr>args_limit := 0\<rparr>), cs))"
    using c[of "example_args\<lparr>args_limit := 0\<rparr>" 3 w,
        THEN conjunct2, THEN conjunct2, THEN conjunct2]
    by (simp add: example_args_def)
  have o: "args_output example_args = ''twitter_data.csv''" by (simp add: example_args_def)
  from s1 obtain rows1 cs1 where
    c1: "scrape_twitter 3 w ''cats'' ''2024-01-01'' ''2024-01-31'' 1 2 True True
         = Some (Inr rows1, cs1)"
    and n1: "length rows1 = 3"
    unfolding w_def by (auto dest: returned_rows_Some)
  from s0 obtain rows0 cs0 where
    c0: "scrape_twitter 3 w ''cats'' ''2024-01-01'' ''2024-01-31'' 0 2 True True
         = Some (Inr rows0, cs0)"
    and n0: "length rows0 = 0"
    unfolding w_def by (auto dest: returned_rows_Some)
  from m1 c1 have "main 3 w example_args = Some (rows1, ''twitter_data.csv'', cs1)"
    by (simp add: o)
  with n1 have r1: "map_option (\<lambda>(rows, file, cs). (length rows, file)) (main 3 w example_args)
      = Some (3, ''twitter_data.csv'')"
    by simp
  from m0 c0 have "main 3 w (example_args\<lparr>args_limit := 0\<rparr>)
                   = Some (rows0, ''twitter_data.csv'', cs0)"
    by (simp add: o)
  with n0 have r0: "map_option (\<lambda>(rows, file, cs). (length rows, file))
        (main 3 w (example_args\<lparr>args_limit := 0\<rparr>))
      = Some (0, ''twitter_data.csv'')"
    by simp
  from h u' l r1 r0 show ?thesis unfolding w_def by (intro conjI)
qed

end
